theory Spec2Isabelle
  imports Complex_Main "HOL-Library.Log_Nat"
begin

section \<open>Python values used by examples/lstm_stateful.py\<close>

text \<open>
  The script works on numbers held in numpy arrays and pandas frames. The sample values
  come from library code (the generator, the moving average) and are modelled by exact
  rationals, a cell of a frame by \<open>rat option\<close> with \<open>None\<close> for NaN. A one-column frame
  is the list of its cells (\<open>series\<close>); a wider frame is the list of its rows (\<open>frame\<close>).
  Python integers are \<open>int\<close>. The one float computation of the script's own code that
  decides an integer, \<open>int(input_len * ratio)\<close>, is modelled in binary64 below.
\<close>

datatype error = ZeroDivisionError | ValueError | OverflowError

type_synonym cell = "rat option"
type_synonym series = "cell list"
type_synonym frame = "cell list list"

subsection \<open>Binary64 floats\<close>

text \<open>
  A Python float is a finite binary64 value (given by the rational it denotes), an
  infinity or NaN. The sign of zero is not kept: nothing below depends on it.
\<close>

datatype pyfloat = Finite rat | PosInf | NegInf | NaN

text \<open>Rounding to the nearest integer, ties to the even one.\<close>

definition round_half_even :: "rat \<Rightarrow> int" where
  "round_half_even r =
     (let f = \<lfloor>r\<rfloor>; d = r - of_int f
      in if d < 1 / 2 then f else if 1 / 2 < d then f + 1 else if even f then f else f + 1)"

definition pow2 :: "int \<Rightarrow> rat" where
  "pow2 e = (if 0 \<le> e then 2 ^ nat e else 1 / 2 ^ nat (- e))"

text \<open>For \<open>a > 0\<close>, the exponent \<open>e\<close> with \<open>2^e \<le> a < 2^(e+1)\<close>.\<close>

definition ilog2 :: "rat \<Rightarrow> int" where
  "ilog2 a = (if 1 \<le> a then bitlen \<lfloor>a\<rfloor> - 1 else - bitlen (\<lceil>1 / a\<rceil> - 1))"

text \<open>
  Rounding of an exact result to binary64, to nearest and ties to even: 53 significant
  bits, the spacing never below \<open>2^-1074\<close> (subnormal numbers), and an infinity once the
  rounded magnitude reaches \<open>2^1024\<close>.
\<close>

definition round64 :: "rat \<Rightarrow> pyfloat" where
  "round64 r =
     (if r = 0 then Finite 0
      else
        (let a = \<bar>r\<bar>;
             q = max (ilog2 a - 52) (- 1074);
             v = of_int (round_half_even (a / pow2 q)) * pow2 q
         in if 2 ^ 1024 \<le> v then (if 0 < r then PosInf else NegInf)
            else Finite (sgn r * v)))"

text \<open>A decimal literal such as \<open>0.8\<close> denotes the binary64 value nearest to it.\<close>

definition float_literal :: "rat \<Rightarrow> pyfloat" where
  "float_literal r = round64 r"

text \<open>
  The conversion of an \<open>int\<close> operand to float: correctly rounded, and OverflowError
  (``int too large to convert to float'') beyond the binary64 range.
\<close>

definition float_of_int :: "int \<Rightarrow> error + pyfloat" where
  "float_of_int n =
     (case round64 (of_int n) of Finite v \<Rightarrow> Inr (Finite v) | _ \<Rightarrow> Inl OverflowError)"

fun fmul :: "pyfloat \<Rightarrow> pyfloat \<Rightarrow> pyfloat" where
  "fmul NaN _ = NaN"
| "fmul _ NaN = NaN"
| "fmul (Finite a) (Finite b) = round64 (a * b)"
| "fmul (Finite a) PosInf = (if a = 0 then NaN else if 0 < a then PosInf else NegInf)"
| "fmul (Finite a) NegInf = (if a = 0 then NaN else if 0 < a then NegInf else PosInf)"
| "fmul PosInf (Finite b) = (if b = 0 then NaN else if 0 < b then PosInf else NegInf)"
| "fmul NegInf (Finite b) = (if b = 0 then NaN else if 0 < b then NegInf else PosInf)"
| "fmul PosInf PosInf = PosInf"
| "fmul PosInf NegInf = NegInf"
| "fmul NegInf PosInf = NegInf"
| "fmul NegInf NegInf = PosInf"

text \<open>\<open>n * f\<close> for an \<open>int\<close> \<open>n\<close> and a float \<open>f\<close>.\<close>

definition int_mul_float :: "int \<Rightarrow> pyfloat \<Rightarrow> error + pyfloat" where
  "int_mul_float n f = (case float_of_int n of Inl e \<Rightarrow> Inl e | Inr nf \<Rightarrow> Inr (fmul nf f))"

text \<open>
  \<open>int(f)\<close> on a float truncates toward zero; it raises ValueError on NaN and
  OverflowError on an infinity.
\<close>

definition py_int :: "pyfloat \<Rightarrow> error + int" where
  "py_int f =
     (case f of
        Finite r \<Rightarrow> Inr (if 0 \<le> r then \<lfloor>r\<rfloor> else \<lceil>r\<rceil>)
      | NaN \<Rightarrow> Inl ValueError
      | _ \<Rightarrow> Inl OverflowError)"

subsection \<open>Slices\<close>

text \<open>
  Positional slices \<open>xs[:k]\<close> and \<open>xs[k:]\<close>: a negative bound counts from the end, and
  every bound is clipped to the list, so a slice never raises.
\<close>

definition slice_to :: "int \<Rightarrow> 'a list \<Rightarrow> 'a list" where
  "slice_to k xs = (if 0 \<le> k then take (nat k) xs else take (nat (int (length xs) + k)) xs)"

definition slice_from :: "int \<Rightarrow> 'a list \<Rightarrow> 'a list" where
  "slice_from k xs = (if 0 \<le> k then drop (nat k) xs else drop (nat (int (length xs) + k)) xs)"


section \<open>The generator (lines 97--108)\<close>

text \<open>
  The global numpy generator is a state of type \<open>'s\<close>, threaded explicitly. Its code is
  not part of the script, so the step that draws one sample of the unit interval is a
  parameter \<open>rng\<close>.
\<close>

fun random_sample :: "('s \<Rightarrow> rat \<times> 's) \<Rightarrow> nat \<Rightarrow> 's \<Rightarrow> rat list \<times> 's" where
  "random_sample rng 0 st = ([], st)"
| "random_sample rng (Suc n) st =
     (case rng st of (u, st1) \<Rightarrow>
        (case random_sample rng n st1 of (us, st2) \<Rightarrow> (u # us, st2)))"

text \<open>
  Modelled from the spec: \<open>np.random.uniform(low, high, size)\<close> is numpy's, not the
  script's. It draws \<open>size\<close> samples of the unit interval and maps each to
  \<open>low + (high - low) * u\<close>; a negative size raises ValueError.
\<close>

definition uniform :: "('s \<Rightarrow> rat \<times> 's) \<Rightarrow> rat \<Rightarrow> rat \<Rightarrow> int \<Rightarrow> 's \<Rightarrow> error + (rat list \<times> 's)" where
  "uniform rng low high n st =
     (if n < 0 then Inl ValueError
      else (case random_sample rng (nat n) st of
              (us, st') \<Rightarrow> Inr (map (\<lambda>u. low + (high - low) * u) us, st')))"

text \<open>\<open>pd.DataFrame\<close> of a one-dimensional array: one column, every cell defined.\<close>

definition DataFrame :: "rat list \<Rightarrow> series" where
  "DataFrame vs = map Some vs"

definition gen_uniform_amp :: "('s \<Rightarrow> rat \<times> 's) \<Rightarrow> rat \<Rightarrow> int \<Rightarrow> 's \<Rightarrow> error + (series \<times> 's)" where
  "gen_uniform_amp rng amp xn st =
     (case uniform rng (-1 * amp) (1 * amp) xn st of
        Inl e \<Rightarrow> Inl e
      | Inr (data_input, st') \<Rightarrow> Inr (DataFrame data_input, st'))"


section \<open>Moving average and rolling window view (lines 120--136)\<close>

definition to_drop :: "int \<Rightarrow> int \<Rightarrow> int" where
  "to_drop tsteps lahead = max (tsteps - 1) (lahead - 1)"

text \<open>The entries of \<open>xs\<close> at the (at most \<open>w\<close>) positions ending at index \<open>i\<close>.\<close>

definition window_at :: "nat \<Rightarrow> nat \<Rightarrow> 'a list \<Rightarrow> 'a list" where
  "window_at w i xs = drop (Suc i - w) (take (Suc i) xs)"

definition window_mean :: "nat \<Rightarrow> cell list \<Rightarrow> cell" where
  "window_mean w win =
     (case those win of
        None \<Rightarrow> None
      | Some vs \<Rightarrow> if length vs = w \<and> 0 < w then Some (sum_list vs / of_nat w) else None)"

text \<open>
  Modelled from the spec: \<open>rolling(window=tsteps, center=False).mean()\<close> is pandas', not
  the script's. Each element is the mean of the trailing window of \<open>tsteps\<close> cells
  ending at its index, and is NaN where the window is not fully populated (the first
  \<open>tsteps - 1\<close> positions) or holds a NaN; a negative window raises ValueError.
\<close>

definition rolling_mean :: "int \<Rightarrow> series \<Rightarrow> error + series" where
  "rolling_mean window xs =
     (if window < 0 then Inl ValueError
      else Inr (map (\<lambda>i. window_mean (nat window) (window_at (nat window) i xs)) [0..<length xs]))"

text \<open>\<open>np.repeat(values, repeats, axis=1)\<close> on a one-column array: each row repeats its cell.\<close>

definition np_repeat :: "nat \<Rightarrow> series \<Rightarrow> frame" where
  "np_repeat repeats xs = map (\<lambda>v. replicate repeats v) xs"

text \<open>\<open>col.shift(i)\<close> for \<open>i \<ge> 0\<close>: the cells move down by \<open>i\<close>, NaN fills the top.\<close>

definition shift :: "nat \<Rightarrow> series \<Rightarrow> series" where
  "shift i col = replicate (min i (length col)) None @ take (length col - i) col"

definition get_column :: "nat \<Rightarrow> frame \<Rightarrow> series" where
  "get_column c df = map (\<lambda>row. row ! c) df"

definition set_column :: "nat \<Rightarrow> series \<Rightarrow> frame \<Rightarrow> frame" where
  "set_column c col df = map (\<lambda>(row, v). row[c := v]) (zip df col)"

text \<open>
  The loop \<open>for i, c in enumerate(data_input.columns): data_input[c] = data_input[c].shift(i)\<close>.
  The columns of the repeated frame are labelled \<open>0 .. lahead - 1\<close>, so \<open>c = i\<close>.
\<close>

fun shift_columns :: "nat list \<Rightarrow> frame \<Rightarrow> frame" where
  "shift_columns [] df = df"
| "shift_columns (i # cs) df = shift_columns cs (set_column i (shift i (get_column i df)) df)"

definition rolling_window_view :: "int \<Rightarrow> series \<Rightarrow> frame" where
  "rolling_window_view lahead xs = shift_columns [0..<nat lahead] (np_repeat (nat lahead) xs)"

text \<open>A one-column frame seen as its list of one-cell rows.\<close>

definition rows_of :: "series \<Rightarrow> frame" where
  "rows_of xs = map (\<lambda>v. [v]) xs"

text \<open>
  Lines 124--136, from the generated frame on: the moving average, the rolling window
  view when \<open>lahead > 1\<close>, then the drop of the first \<open>to_drop\<close> rows of both.
\<close>

definition preprocess :: "int \<Rightarrow> int \<Rightarrow> series \<Rightarrow> error + (frame \<times> series)" where
  "preprocess tsteps lahead data_input =
     (case rolling_mean tsteps data_input of
        Inl e \<Rightarrow> Inl e
      | Inr expected_output \<Rightarrow>
          (let windowed = (if 1 < lahead then rolling_window_view lahead data_input
                           else rows_of data_input)
           in Inr (slice_from (to_drop tsteps lahead) windowed,
                   slice_from (to_drop tsteps lahead) expected_output)))"

text \<open>Lines 120--136 as a whole, from a generator state.\<close>

definition generate_data ::
  "('s \<Rightarrow> rat \<times> 's) \<Rightarrow> int \<Rightarrow> int \<Rightarrow> int \<Rightarrow> 's \<Rightarrow> error + (frame \<times> series)" where
  "generate_data rng input_len tsteps lahead st =
     (case gen_uniform_amp rng (1 / 10) (input_len + to_drop tsteps lahead) st of
        Inl e \<Rightarrow> Inl e
      | Inr (data_input, st') \<Rightarrow> preprocess tsteps lahead data_input)"


section \<open>Train/test split (lines 173--198)\<close>

text \<open>\<open>reshape_3 = lambda x: x.values.reshape((x.shape[0], x.shape[1], 1))\<close>.\<close>

definition reshape_3 :: "'a list list \<Rightarrow> 'a list list list" where
  "reshape_3 x = map (map (\<lambda>v. [v])) x"

text \<open>
  \<open>reshape_2 = lambda x: x.values.reshape((x.shape[0], 1))\<close>. numpy raises ValueError
  unless the frame holds exactly \<open>x.shape[0]\<close> cells, that is unless it has one column
  (or no row).
\<close>

definition reshape_2 :: "'a list list \<Rightarrow> error + 'a list list" where
  "reshape_2 y =
     (if length (concat y) = length y then Inr (map (\<lambda>v. [v]) (concat y)) else Inl ValueError)"

text \<open>
  Lines 174--176: \<open>to_train = int(input_len * ratio); to_train -= to_train % batch_size\<close>.
  The product is a binary64 product. Python's \<open>%\<close> takes the sign of the divisor, as
  \<open>mod\<close> on \<open>int\<close> does, and raises ZeroDivisionError on a zero divisor.
\<close>

definition split_index :: "int \<Rightarrow> int \<Rightarrow> pyfloat \<Rightarrow> error + int" where
  "split_index input_len batch_size ratio =
     (case int_mul_float input_len ratio of
        Inl e \<Rightarrow> Inl e
      | Inr p \<Rightarrow>
          (case py_int p of
             Inl e \<Rightarrow> Inl e
           | Inr to_train \<Rightarrow>
               if batch_size = 0 then Inl ZeroDivisionError
               else Inr (to_train - to_train mod batch_size)))"

text \<open>\<open>if to_drop > 0: xs = xs[:-1 * to_drop]\<close>.\<close>

definition drop_tail :: "int \<Rightarrow> 'a list \<Rightarrow> 'a list" where
  "drop_tail d xs = (if 0 < d then slice_to (-1 * d) xs else xs)"

text \<open>
  \<open>split_data\<close> reads the globals \<open>input_len\<close> and \<open>batch_size\<close>; they are its first two
  arguments here. \<open>x\<close> and \<open>y\<close> are frames, given by their rows; \<open>d\<close> is the local
  \<open>to_drop = x.shape[0] % batch_size\<close>.
\<close>

definition split_data ::
  "int \<Rightarrow> int \<Rightarrow> 'a list list \<Rightarrow> 'b list list \<Rightarrow> pyfloat \<Rightarrow>
   error + (('a list list list \<times> 'b list list) \<times> ('a list list list \<times> 'b list list))" where
  "split_data input_len batch_size x y ratio =
     (case split_index input_len batch_size ratio of
        Inl e \<Rightarrow> Inl e
      | Inr to_train \<Rightarrow>
          (let x_train = slice_to to_train x;
               y_train = slice_to to_train y;
               x_test = slice_from to_train x;
               y_test = slice_from to_train y;
               d = int (length x) mod batch_size;
               x_test = drop_tail d x_test;
               y_test = drop_tail d y_test;
               x_train = reshape_3 x_train;
               x_test = reshape_3 x_test
           in (case reshape_2 y_train of
                 Inl e \<Rightarrow> Inl e
               | Inr y_train \<Rightarrow>
                   (case reshape_2 y_test of
                      Inl e \<Rightarrow> Inl e
                    | Inr y_test \<Rightarrow> Inr ((x_train, y_train), (x_test, y_test))))))"

text \<open>
  Line 201: the script's only call, with the default \<open>ratio = 0.8\<close>; the target is the
  one-column frame of the moving average.
\<close>

definition script_split ::
  "('s \<Rightarrow> rat \<times> 's) \<Rightarrow> int \<Rightarrow> int \<Rightarrow> int \<Rightarrow> int \<Rightarrow> 's \<Rightarrow>
   error + ((cell list list list \<times> cell list list) \<times> (cell list list list \<times> cell list list))" where
  "script_split rng input_len tsteps lahead batch_size st =
     (case generate_data rng input_len tsteps lahead st of
        Inl e \<Rightarrow> Inl e
      | Inr (data_input, expected_output) \<Rightarrow>
          split_data input_len batch_size data_input (rows_of expected_output)
            (float_literal (4 / 5)))"

text \<open>A small linear congruential generator, to run the definitions on concrete data.\<close>

definition lcg :: "int \<Rightarrow> rat \<times> int" where
  "lcg s = (let s' = (75 * s + 74) mod 65537 in (of_int s' / 65537, s'))"

section \<open>The specification's wording, for comparison\<close>

text \<open>
  The window splitter in the order the specification words it: first drop the leading
  \<open>max(tsteps-1, lahead-1)\<close> entries of the sequence and of the moving average, then
  slide the window over what is left.
\<close>

definition spec_drop_then_window :: "int \<Rightarrow> int \<Rightarrow> series \<Rightarrow> series \<Rightarrow> frame \<times> series" where
  "spec_drop_then_window tsteps lahead data_input expected_output =
     (let retained = slice_from (to_drop tsteps lahead) data_input
      in (if 1 < lahead then rolling_window_view lahead retained else rows_of retained,
          slice_from (to_drop tsteps lahead) expected_output))"


section \<open>Properties of the binary64 rounding\<close>

lemma floor_rat_numeral_div: "\<lfloor>(numeral a :: rat) / numeral b\<rfloor> = numeral a div numeral b"
  using floor_divide_of_int_eq [of "numeral a" "numeral b", where ?'a = rat] by simp

lemma ceiling_rat_numeral_div:
  "\<lceil>(numeral a :: rat) / numeral b\<rceil> = - (- numeral a div numeral b)"
  using floor_divide_of_int_eq [of "- numeral a" "numeral b", where ?'a = rat]
  by (simp add: ceiling_def)

lemma ceiling_rat_neg_numeral_div:
  "\<lceil>- ((numeral a :: rat) / numeral b)\<rceil> = - (numeral a div numeral b)"
  by (simp add: ceiling_def floor_rat_numeral_div)

lemma pow2_powi: "pow2 e = 2 powi e"
  by (simp add: pow2_def power_int_def power_one_over [symmetric] inverse_eq_divide)

lemma pow2_pos: "0 < pow2 e"
  by (simp add: pow2_def)

lemma pow2_nat: "pow2 (int n) = 2 ^ n"
  by (simp add: pow2_def)

lemma pow2_mono: "e \<le> e' \<Longrightarrow> pow2 e \<le> pow2 e'"
  unfolding pow2_powi by (rule power_int_increasing) simp_all

lemma pow2_less_imp_less: "pow2 e < pow2 e' \<Longrightarrow> e < e'"
  using pow2_mono [of e' e] by (cases "e < e'") simp_all

lemma pow2_add: "pow2 (a + b) = pow2 a * pow2 b"
  unfolding pow2_powi by (simp add: power_int_add)

lemma ilog2_lower:
  assumes "0 < a"
  shows "pow2 (ilog2 a) \<le> a"
proof (cases "1 \<le> a")
  case True
  let ?x = "\<lfloor>a\<rfloor>"
  have x: "0 < ?x" using True by simp
  have b: "0 \<le> bitlen ?x - 1" using x bitlen_bounds [OF x] by (simp add: bitlen_alt_def)
  have "(2::int) ^ nat (bitlen ?x - 1) \<le> ?x" using bitlen_bounds [OF x] by simp
  then have "of_int ((2::int) ^ nat (bitlen ?x - 1)) \<le> (of_int ?x :: rat)"
    by (simp only: of_int_le_iff)
  then have "(2::rat) ^ nat (bitlen ?x - 1) \<le> of_int ?x" by simp
  also have "\<dots> \<le> a" by simp
  finally show ?thesis using True b by (simp add: ilog2_def pow2_def)
next
  case False
  let ?c = "\<lceil>1 / a\<rceil> - 1"
  have "1 < 1 / a" using False assms by simp
  then have c: "0 < ?c" by (simp add: less_ceiling_iff)
  have "?c < 2 ^ nat (bitlen ?c)" using bitlen_bounds [OF c] by simp
  then have "\<lceil>1 / a\<rceil> \<le> 2 ^ nat (bitlen ?c)" by simp
  then have "(of_int \<lceil>1 / a\<rceil> :: rat) \<le> of_int (2 ^ nat (bitlen ?c))"
    by (simp only: of_int_le_iff)
  then have "(of_int \<lceil>1 / a\<rceil> :: rat) \<le> 2 ^ nat (bitlen ?c)" by simp
  then have "1 / a \<le> 2 ^ nat (bitlen ?c)"
    using le_of_int_ceiling [of "1 / a"] by (rule order_trans [rotated])
  then have "1 / 2 ^ nat (bitlen ?c) \<le> a"
    using assms by (simp add: field_simps)
  moreover have "0 < bitlen ?c" using c by (simp add: bitlen_alt_def)
  ultimately show ?thesis using False by (simp add: ilog2_def pow2_def)
qed

lemma ilog2_upper:
  assumes "0 < a"
  shows "a < pow2 (ilog2 a + 1)"
proof (cases "1 \<le> a")
  case True
  let ?x = "\<lfloor>a\<rfloor>"
  have x: "0 < ?x" using True by simp
  have b: "0 \<le> bitlen ?x" by (rule bitlen_nonneg)
  have "?x + 1 \<le> 2 ^ nat (bitlen ?x)" using bitlen_bounds [OF x] by simp
  then have "(of_int (?x + 1) :: rat) \<le> of_int (2 ^ nat (bitlen ?x))"
    by (simp only: of_int_le_iff)
  moreover have "a < of_int (?x + 1)" by linarith
  ultimately have "a < 2 ^ nat (bitlen ?x)" by simp
  then show ?thesis using True b by (simp add: ilog2_def pow2_def)
next
  case False
  let ?c = "\<lceil>1 / a\<rceil> - 1"
  have "1 < 1 / a" using False assms by simp
  then have c: "0 < ?c" by (simp add: less_ceiling_iff)
  have bl: "0 < bitlen ?c" using c by (simp add: bitlen_alt_def)
  have "2 ^ nat (bitlen ?c - 1) \<le> ?c" using bitlen_bounds [OF c] by simp
  then have "(of_int (2 ^ nat (bitlen ?c - 1)) :: rat) \<le> of_int ?c"
    by (simp only: of_int_le_iff)
  moreover have "of_int ?c < 1 / a" by linarith
  ultimately have "2 ^ nat (bitlen ?c - 1) < 1 / a" by simp
  then have lt: "a < 1 / 2 ^ nat (bitlen ?c - 1)"
    using assms by (simp add: field_simps)
  show ?thesis
  proof (cases "bitlen ?c = 1")
    case True
    then show ?thesis using lt False by (simp add: ilog2_def pow2_def)
  next
    case False
    then have "1 < bitlen ?c" using bl by simp
    then have "nat (bitlen ?c - 1) = nat (- (1 - bitlen ?c))" "\<not> 0 \<le> 1 - bitlen ?c" by simp_all
    then show ?thesis using lt \<open>\<not> 1 \<le> a\<close> by (simp add: ilog2_def pow2_def)
  qed
qed

lemma round_half_even_of_int: "round_half_even (of_int k) = k"
  by (simp add: round_half_even_def)



lemma round_half_even_near: "\<bar>of_int (round_half_even x) - x\<bar> \<le> 1 / 2"
proof -
  have d: "0 \<le> x - of_int \<lfloor>x\<rfloor>" "x - of_int \<lfloor>x\<rfloor> < 1" by linarith+
  consider "x - of_int \<lfloor>x\<rfloor> < 1 / 2" | "1 / 2 < x - of_int \<lfloor>x\<rfloor>"
    | "x - of_int \<lfloor>x\<rfloor> = 1 / 2" by linarith
  then show ?thesis
  proof cases
    case 1
    then have "round_half_even x = \<lfloor>x\<rfloor>" by (simp add: round_half_even_def Let_def)
    then show ?thesis using d 1 by linarith
  next
    case 2
    then have "round_half_even x = \<lfloor>x\<rfloor> + 1" by (simp add: round_half_even_def Let_def)
    then show ?thesis using d 2 by simp
  next
    case 3
    then have "round_half_even x = \<lfloor>x\<rfloor> \<or> round_half_even x = \<lfloor>x\<rfloor> + 1"
      by (simp add: round_half_even_def Let_def)
    then show ?thesis using 3 by (elim disjE) (simp, linarith)+
  qed
qed

lemma round64_pos_unfold:
  assumes "0 < r"
  shows "round64 r =
     (if 2 ^ 1024 \<le> of_int (round_half_even (r / pow2 (max (ilog2 r - 52) (- 1074)))) *
                       pow2 (max (ilog2 r - 52) (- 1074))
      then PosInf
      else Finite (of_int (round_half_even (r / pow2 (max (ilog2 r - 52) (- 1074)))) *
                   pow2 (max (ilog2 r - 52) (- 1074))))"
  using assms by (simp add: round64_def Let_def)

lemma round64_neg: "round64 (- r) = (case round64 r of Finite v \<Rightarrow> Finite (- v)
     | PosInf \<Rightarrow> NegInf | NegInf \<Rightarrow> PosInf | NaN \<Rightarrow> NaN)"
  by (cases "r = 0"; cases "0 < r") (simp_all add: round64_def Let_def sgn_if)

lemma ilog2_less:
  assumes "0 < a" and "a < pow2 k"
  shows "ilog2 a < k"
  using ilog2_lower [OF assms(1)] assms(2) by (intro pow2_less_imp_less) simp



lemma round64_of_nat_int:
  assumes "0 < n" and "n < 2 ^ 53"
  shows "round64 (of_int n) = Finite (of_int n)"
proof -
  let ?r = "of_int n :: rat"
  let ?q = "max (ilog2 ?r - 52) (- 1074)"
  let ?m = "round_half_even (?r / pow2 ?q)"
  have r: "0 < ?r" using assms(1) by simp
  have "?r < (of_int (2 ^ 53) :: rat)" using assms(2) by (simp only: of_int_less_iff)
  then have "?r < pow2 53" by (simp add: pow2_def)
  then have "ilog2 ?r < 53" using r by (rule ilog2_less [rotated])
  then have q: "?q \<le> 0" by simp
  have p: "pow2 ?q = 1 / 2 ^ nat (- ?q)"
  proof (cases "?q = 0")
    case True
    then show ?thesis by (simp add: pow2_def)
  next
    case False
    then have "\<not> 0 \<le> ?q" using q by linarith
    then show ?thesis by (simp only: pow2_def if_False)
  qed
  have "?r / pow2 ?q = of_int (n * 2 ^ nat (- ?q))" unfolding p by simp
  then have "?m = n * 2 ^ nat (- ?q)" by (simp only: round_half_even_of_int)
  then have "of_int ?m * pow2 ?q = of_int (n * 2 ^ nat (- ?q)) * pow2 ?q" by simp
  also have "\<dots> = ?r" unfolding p by simp
  finally have v: "of_int ?m * pow2 ?q = ?r" .
  have "?r < 2 ^ 1024"
  proof -
    have "?r < of_int (2 ^ 53)" using assms(2) by (simp only: of_int_less_iff)
    also have "\<dots> \<le> 2 ^ 1024" by simp
    finally show ?thesis .
  qed
  then have "\<not> 2 ^ 1024 \<le> of_int ?m * pow2 ?q" unfolding v by simp
  then have "round64 ?r = Finite (of_int ?m * pow2 ?q)"
    unfolding round64_pos_unfold [OF r] by (simp only: if_False)
  then show ?thesis unfolding v .
qed

lemma round64_of_int:
  assumes "\<bar>n\<bar> < 2 ^ 53"
  shows "round64 (of_int n) = Finite (of_int n)"
proof -
  consider "n = 0" | "0 < n" | "n < 0" by linarith
  then show ?thesis
  proof cases
    case 1
    then show ?thesis by (simp add: round64_def)
  next
    case 2
    then show ?thesis using assms by (intro round64_of_nat_int) simp_all
  next
    case 3
    then have "round64 (of_int (- n)) = Finite (of_int (- n))"
      using assms by (intro round64_of_nat_int) simp_all
    then have "round64 (- (of_int (- n))) = Finite (- of_int (- n))"
      by (simp only: round64_neg pyfloat.case)
    then show ?thesis by simp
  qed
qed

lemma round64_pos_finite:
  assumes "0 < r" and "r < 2 ^ 1023"
  shows "\<exists>v. round64 r = Finite v"
proof -
  let ?q = "max (ilog2 r - 52) (- 1074)"
  let ?m = "round_half_even (r / pow2 ?q)"
  have "r < pow2 1023" using assms(2) by (simp add: pow2_def)
  then have "ilog2 r < 1023" using assms(1) by (rule ilog2_less [rotated])
  then have "?q \<le> 970" by simp
  then have "pow2 ?q \<le> pow2 970" by (rule pow2_mono)
  then have pq: "pow2 ?q \<le> 2 ^ 970" by (simp add: pow2_def)
  have "of_int ?m - r / pow2 ?q \<le> 1 / 2"
    using round_half_even_near [of "r / pow2 ?q"] by linarith
  then have "(of_int ?m - r / pow2 ?q) * pow2 ?q \<le> 1 / 2 * pow2 ?q"
    using pow2_pos [of ?q] by (simp only: mult_le_cancel_right_pos)
  then have "of_int ?m * pow2 ?q - r \<le> pow2 ?q / 2"
    using pow2_pos [of ?q] by (simp add: algebra_simps)
  moreover have "x < A + B" if "x - r \<le> p / 2" "r < A" "p \<le> B" "0 < p" for x A B p :: rat
    using that by linarith
  ultimately have "of_int ?m * pow2 ?q < 2 ^ 1023 + 2 ^ 970"
    using assms(2) pq pow2_pos [of ?q] by blast
  also have "\<dots> < (2::rat) ^ 1024" by simp
  finally have "\<not> 2 ^ 1024 \<le> of_int ?m * pow2 ?q" by simp
  then have "round64 r = Finite (of_int ?m * pow2 ?q)"
    unfolding round64_pos_unfold [OF assms(1)] by (simp only: if_False)
  then show ?thesis by blast
qed

lemma round64_finite:
  assumes "\<bar>r\<bar> < 2 ^ 1023"
  shows "\<exists>v. round64 r = Finite v"
proof -
  consider "r = 0" | "0 < r" | "r < 0" by linarith
  then show ?thesis
  proof cases
    case 1
    then show ?thesis by (simp add: round64_def)
  next
    case 2
    then show ?thesis using assms by (intro round64_pos_finite) simp_all
  next
    case 3
    then obtain v where "round64 (- r) = Finite v"
      using assms round64_pos_finite [of "- r"] by auto
    then have "round64 (- (- r)) = Finite (- v)"
      by (simp only: round64_neg pyfloat.case)
    then show ?thesis by simp
  qed
qed

text \<open>A rounding is evaluated in steps: the exponent, the spacing, the rounded multiple.\<close>

lemma round64_FiniteI:
  assumes "r \<noteq> 0" and "ilog2 \<bar>r\<bar> = e" and "max (e - 52) (- 1074) = q"
    and "round_half_even (\<bar>r\<bar> / pow2 q) = m" and "sgn r * (of_int m * pow2 q) = v"
    and "of_int m * pow2 q < 2 ^ 1024"
  shows "round64 r = Finite v"
  using assms by (simp add: round64_def Let_def not_le [symmetric])

lemmas round64_steps = ilog2_def compute_bitlen ceiling_rat_numeral_div floor_rat_numeral_div
  pow2_def round_half_even_def Let_def

section \<open>Slices, reshaping and the split index\<close>

lemma length_slice_to:
  "int (length (slice_to k xs)) = (if 0 \<le> k then min k (int (length xs)) else max 0 (int (length xs) + k))"
  by (auto simp add: slice_to_def)

lemma length_slice_from:
  "int (length (slice_from k xs)) = (if 0 \<le> k then max 0 (int (length xs) - k) else min (int (length xs)) (- k))"
  by (auto simp add: slice_from_def)

lemma slice_to_from_append: "slice_to k xs @ slice_from k xs = xs"
  by (simp add: slice_to_def slice_from_def)

lemma length_drop_tail:
  "int (length (drop_tail d xs)) = (if 0 < d then max 0 (int (length xs) - d) else int (length xs))"
  by (simp add: drop_tail_def length_slice_to)

lemma drop_tail_take: "0 \<le> d \<Longrightarrow> drop_tail d xs = take (length xs - nat d) xs"
  by (auto simp add: drop_tail_def slice_to_def nat_diff_distrib' intro: arg_cong2 [where f = take])

lemma set_slice_to: "set (slice_to k xs) \<subseteq> set xs"
  by (auto simp add: slice_to_def dest: in_set_takeD)

lemma set_slice_from: "set (slice_from k xs) \<subseteq> set xs"
  by (auto simp add: slice_from_def dest: in_set_dropD)

lemma set_drop_tail: "set (drop_tail d xs) \<subseteq> set xs"
  using set_slice_to [of "-1 * d" xs] by (simp add: drop_tail_def)

lemma list_all_slice_to: "list_all P xs \<Longrightarrow> list_all P (slice_to k xs)"
  using set_slice_to [of k xs] by (auto simp add: list_all_iff)

lemma list_all_slice_from: "list_all P xs \<Longrightarrow> list_all P (slice_from k xs)"
  using set_slice_from [of k xs] by (auto simp add: list_all_iff)

lemma list_all_drop_tail: "list_all P xs \<Longrightarrow> list_all P (drop_tail d xs)"
  using set_drop_tail [of d xs] by (auto simp add: list_all_iff)

lemma length_reshape_3 [simp]: "length (reshape_3 x) = length x"
  by (simp add: reshape_3_def)

lemma list_all_reshape_3: "list_all (list_all (list_all P)) (reshape_3 x) = list_all (list_all P) x"
  by (simp add: reshape_3_def list_all_iff)

text \<open>On a one-column frame \<open>reshape_2\<close> returns the rows as they are.\<close>

lemma concat_one_column:
  "list_all (\<lambda>row. length row = 1) y \<Longrightarrow> map (\<lambda>v. [v]) (concat y) = y"
proof (induction y)
  case Nil
  then show ?case by simp
next
  case (Cons row y)
  then obtain v where "row = [v]" by (cases row) auto
  then show ?case using Cons by simp
qed

lemma reshape_2_one_column:
  assumes "list_all (\<lambda>row. length row = 1) y"
  shows "reshape_2 y = Inr y"
proof -
  have "length (map (\<lambda>v. [v]) (concat y)) = length y"
    by (simp only: concat_one_column [OF assms])
  then have "length (concat y) = length y" by simp
  then show ?thesis by (simp add: reshape_2_def concat_one_column [OF assms])
qed

lemma reshape_2_wide:
  "reshape_2 y = Inr y' \<Longrightarrow> length y' = length y"
  by (auto simp add: reshape_2_def split: if_splits)

lemma split_index_mod: "split_index input_len batch_size ratio = Inr t \<Longrightarrow> t mod batch_size = 0"
  by (auto simp add: split_index_def split: sum.splits if_splits)

lemma split_index_batch: "split_index input_len batch_size ratio = Inr t \<Longrightarrow> batch_size \<noteq> 0"
  by (auto simp add: split_index_def split: sum.splits if_splits)

lemma split_index_Finite:
  assumes "int_mul_float input_len ratio = Inr (Finite p)" and "batch_size \<noteq> 0"
  shows "split_index input_len batch_size ratio =
     Inr ((if 0 \<le> p then \<lfloor>p\<rfloor> else \<lceil>p\<rceil>) - (if 0 \<le> p then \<lfloor>p\<rfloor> else \<lceil>p\<rceil>) mod batch_size)"
  using assms by (simp add: split_index_def py_int_def)

lemma split_data_error:
  "split_index input_len batch_size ratio = Inl e \<Longrightarrow>
   split_data input_len batch_size x y ratio = Inl e"
  by (simp add: split_data_def)

lemma split_data_Inr:
  assumes "split_index input_len batch_size ratio = Inr t"
    and "list_all (\<lambda>row. length row = 1) y"
  shows "split_data input_len batch_size x y ratio =
     Inr ((reshape_3 (slice_to t x), slice_to t y),
          (reshape_3 (drop_tail (int (length x) mod batch_size) (slice_from t x)),
           drop_tail (int (length x) mod batch_size) (slice_from t y)))"
proof -
  have "reshape_2 (slice_to t y) = Inr (slice_to t y)"
    using assms(2) by (intro reshape_2_one_column list_all_slice_to)
  moreover have "reshape_2 (drop_tail (int (length x) mod batch_size) (slice_from t y)) =
      Inr (drop_tail (int (length x) mod batch_size) (slice_from t y))"
    using assms(2) by (intro reshape_2_one_column list_all_drop_tail list_all_slice_from)
  ultimately show ?thesis using assms(1) by (simp add: split_data_def Let_def)
qed

lemma tail_multiple:
  fixes n t b :: int
  assumes "0 < b" "0 \<le> t" "t \<le> n" "t mod b = 0"
  shows "(if 0 < n mod b then max 0 (n - t - n mod b) else n - t) mod b = 0"
proof -
  have e: "(n - t) mod b = n mod b"
    using assms(4) by (metis mod_diff_right_eq diff_zero)
  have ge: "0 \<le> n - t" using assms by simp
  have le: "n mod b \<le> n - t"
    using e ge by (metis zmod_le_nonneg_dividend)
  have m: "(n - t - n mod b) mod b = 0"
    using e by (metis minus_mod_eq_mult_div mod_mult_self1_is_0)
  show ?thesis
  proof (cases "0 < n mod b")
    case True
    then show ?thesis using le m by (simp add: max_def)
  next
    case False
    then have "n mod b = 0" using assms(1) pos_mod_sign [of b n] by linarith
    then show ?thesis using e False by simp
  qed
qed

text \<open>
  The product \<open>input_len * ratio\<close>: with \<open>|input_len| < 2^53\<close> the conversion of
  \<open>input_len\<close> is exact, and the product is the rounding of the exact product.
\<close>

lemma int_mul_float_Finite:
  assumes "\<bar>n\<bar> < 2 ^ 53"
  shows "int_mul_float n (Finite r) = Inr (round64 (of_int n * r))"
  by (simp add: int_mul_float_def float_of_int_def round64_of_int [OF assms])

lemma int_mul_float_no_overflow:
  assumes "\<bar>n\<bar> < 2 ^ 53" and "\<bar>of_int n * r\<bar> < 2 ^ 1023"
  shows "\<exists>p. int_mul_float n (Finite r) = Inr (Finite p)"
  using round64_finite [OF assms(2)] by (auto simp add: int_mul_float_Finite [OF assms(1)])



section \<open>Concrete binary64 products\<close>

lemma float_literal_4_5:
  "float_literal (4 / 5) = Finite (3602879701896397 / 4503599627370496)"
  unfolding float_literal_def
  by (rule round64_FiniteI [where e = "- 1" and q = "- 53" and m = 7205759403792794])
    (simp_all add: round64_steps)


lemma float_literal_29_100:
  "float_literal (29 / 100) = Finite (5224175567749775 / 18014398509481984)"
  unfolding float_literal_def
  by (rule round64_FiniteI [where e = "- 2" and q = "- 54" and m = 5224175567749775])
    (simp_all add: round64_steps)

lemma product_10_0_8: "int_mul_float 10 (float_literal (4 / 5)) = Inr (Finite 8)"
proof -
  have "round64 (10 * (3602879701896397 / 4503599627370496)) = Finite 8"
    by (rule round64_FiniteI [where e = 3 and q = "- 49" and m = 4503599627370496])
      (simp_all add: round64_steps)
  then show ?thesis
    using int_mul_float_Finite [of 10 "3602879701896397 / 4503599627370496"]
    by (simp add: float_literal_4_5)
qed


lemma product_100_0_29:
  "int_mul_float 100 (float_literal (29 / 100)) = Inr (Finite (8162774324609023 / 281474976710656))"
proof -
  have "round64 (100 * (5224175567749775 / 18014398509481984)) =
      Finite (8162774324609023 / 281474976710656)"
    by (rule round64_FiniteI [where e = 4 and q = "- 48" and m = 8162774324609023])
      (simp_all add: round64_steps)
  then show ?thesis
    using int_mul_float_Finite [of 100 "5224175567749775 / 18014398509481984"]
    by (simp add: float_literal_29_100)
qed

lemma split_index_10_1: "split_index 10 1 (float_literal (4 / 5)) = Inr 8"
  using split_index_Finite [OF product_10_0_8, of 1] by simp

lemma split_index_10_2: "split_index 10 2 (float_literal (4 / 5)) = Inr 8"
  using split_index_Finite [OF product_10_0_8, of 2] by simp


lemma split_index_100_0_29: "split_index 100 1 (float_literal (29 / 100)) = Inr 28"
  using split_index_Finite [OF product_100_0_29, of 1] by (simp add: floor_rat_numeral_div)

lemma round64_5_2: "round64 (5 / 2) = Finite (5 / 2)"
  by (rule round64_FiniteI [where e = 1 and q = "- 51" and m = 5629499534213120])
    (simp_all add: round64_steps)

lemma round64_15_2: "round64 (15 / 2) = Finite (15 / 2)"
  by (rule round64_FiniteI [where e = 2 and q = "- 50" and m = 8444249301319680])
    (simp_all add: round64_steps)

lemma split_index_5_2: "split_index 5 2 (Finite (1 / 2)) = Inr 2"
proof -
  have "int_mul_float 5 (Finite (1 / 2)) = Inr (Finite (5 / 2))"
    using int_mul_float_Finite [of 5 "1 / 2"] by (simp add: round64_5_2)
  from split_index_Finite [OF this, of 2] show ?thesis by (simp add: floor_rat_numeral_div)
qed

lemma split_index_6_2: "split_index 6 2 (Finite (1 / 2)) = Inr 2"
proof -
  have "int_mul_float 6 (Finite (1 / 2)) = Inr (Finite 3)"
    using int_mul_float_Finite [of 6 "1 / 2"] round64_of_int [of 3] by simp
  from split_index_Finite [OF this, of 2] show ?thesis by simp
qed

lemma split_index_2_1: "split_index 2 1 (Finite (1 / 2)) = Inr 1"
proof -
  have "int_mul_float 2 (Finite (1 / 2)) = Inr (Finite 1)"
    using int_mul_float_Finite [of 2 "1 / 2"] round64_of_int [of 1] by simp
  from split_index_Finite [OF this, of 1] show ?thesis by simp
qed

lemma split_index_above_one: "split_index 5 2 (Finite (3 / 2)) = Inr 6"
proof -
  have "int_mul_float 5 (Finite (3 / 2)) = Inr (Finite (15 / 2))"
    using int_mul_float_Finite [of 5 "3 / 2"] by (simp add: round64_15_2)
  from split_index_Finite [OF this, of 2] show ?thesis by (simp add: floor_rat_numeral_div)
qed

lemma split_index_negative: "split_index 5 2 (Finite (- (1 / 2))) = Inr (- 2)"
proof -
  have "round64 (- (5 / 2)) = Finite (- (5 / 2))"
    by (simp only: round64_neg round64_5_2 pyfloat.case)
  then have "int_mul_float 5 (Finite (- (1 / 2))) = Inr (Finite (- (5 / 2)))"
    using int_mul_float_Finite [of 5 "- (1 / 2)"] by simp
  from split_index_Finite [OF this, of 2] show ?thesis
    by (simp add: ceiling_rat_neg_numeral_div)
qed

section \<open>Properties of \<open>split_data\<close>\<close>

text \<open>
  C7, as amended. For \<open>batch_size \<ge> 1\<close>, a target frame of one column, \<open>|input_len| < 2^53\<close>
  and a finite ratio whose product with \<open>input_len\<close> stays below \<open>2^1023\<close> in magnitude,
  \<open>split_data\<close> returns a result and raises nothing. The test arrays are the rows after
  the split index without their last \<open>len(x) % batch_size\<close> rows (without all of them if
  they are fewer), which is at most \<open>batch_size - 1\<close> rows: a batch size that does not
  divide the data length is handled by truncating the test tail.
\<close>

theorem split_data_total:
  assumes "1 \<le> batch_size" and "list_all (\<lambda>row. length row = 1) y"
    and "\<bar>input_len\<bar> < 2 ^ 53" and "\<bar>of_int input_len * ratio\<bar> < 2 ^ 1023"
  shows "\<exists>to_train x_train y_train x_test y_test.
     split_index input_len batch_size (Finite ratio) = Inr to_train \<and>
     split_data input_len batch_size x y (Finite ratio) =
       Inr ((x_train, y_train), (x_test, y_test)) \<and>
     x_train = reshape_3 (slice_to to_train x) \<and> y_train = slice_to to_train y \<and>
     x_test = reshape_3 (take (length (slice_from to_train x) - nat (int (length x) mod batch_size))
                (slice_from to_train x)) \<and>
     y_test = take (length (slice_from to_train y) - nat (int (length x) mod batch_size))
                (slice_from to_train y) \<and>
     0 \<le> int (length x) mod batch_size \<and> int (length x) mod batch_size \<le> batch_size - 1"
proof -
  let ?d = "int (length x) mod batch_size"
  have b: "batch_size \<noteq> 0" "0 < batch_size" using assms(1) by simp_all
  obtain p where p: "int_mul_float input_len (Finite ratio) = Inr (Finite p)"
    using int_mul_float_no_overflow [OF assms(3,4)] by blast
  let ?t = "(if 0 \<le> p then \<lfloor>p\<rfloor> else \<lceil>p\<rceil>) - (if 0 \<le> p then \<lfloor>p\<rfloor> else \<lceil>p\<rceil>) mod batch_size"
  have t: "split_index input_len batch_size (Finite ratio) = Inr ?t"
    using p b(1) by (rule split_index_Finite)
  have d: "0 \<le> ?d" "?d \<le> batch_size - 1"
    using b(2) pos_mod_bound [of batch_size "int (length x)"] by simp_all
  have s: "split_data input_len batch_size x y (Finite ratio) =
     Inr ((reshape_3 (slice_to ?t x), slice_to ?t y),
          (reshape_3 (take (length (slice_from ?t x) - nat ?d) (slice_from ?t x)),
           take (length (slice_from ?t y) - nat ?d) (slice_from ?t y)))"
    unfolding split_data_Inr [OF t assms(2)] drop_tail_take [OF d(1)] ..
  show ?thesis
    by (rule exI [of _ ?t], intro exI conjI, rule t, rule s, (rule refl)+, rule d(1), rule d(2))
qed

theorem split_data_total_witness:
  "(1::int) \<le> 2 \<and> list_all (\<lambda>row. length row = 1) [[10], [20], [30], [40], [50::int]] \<and>
   \<bar>5::int\<bar> < 2 ^ 53 \<and> \<bar>of_int 5 * (1 / 2 :: rat)\<bar> < 2 ^ 1023 \<and>
   split_data 5 2 [[1], [2], [3], [4], [5::int]] [[10], [20], [30], [40], [50::int]] (Finite (1 / 2)) =
     Inr (([[[1]], [[2]]], [[10], [20]]), ([[[3]], [[4]]], [[30], [40]])) \<and>
   slice_from 2 [[1], [2], [3], [4], [5::int]] = [[3], [4], [5]] \<and>
   int (length [[1], [2], [3], [4], [5::int]]) mod 2 = 1"
proof -
  have h1: "(1::int) \<le> 2"
    and h2: "list_all (\<lambda>row. length row = 1) [[10], [20], [30], [40], [50::int]]"
    and h3: "\<bar>5::int\<bar> < 2 ^ 53" and h4: "\<bar>of_int 5 * (1 / 2 :: rat)\<bar> < 2 ^ 1023"
    by simp_all
  have e: "split_data 5 2 [[1], [2], [3], [4], [5::int]] [[10], [20], [30], [40], [50::int]] (Finite (1 / 2)) =
     Inr (([[[1]], [[2]]], [[10], [20]]), ([[[3]], [[4]]], [[30], [40]]))"
    by (simp add: split_data_Inr [OF split_index_5_2 h2] slice_to_def slice_from_def
        drop_tail_def reshape_3_def)
  have l: "slice_from 2 [[1], [2], [3], [4], [5::int]] = [[3], [4], [5]]"
    "int (length [[1], [2], [3], [4], [5::int]]) mod 2 = 1"
    by (simp_all add: slice_from_def)
  from split_data_total [OF h1 h2 h3 h4, of "[[1], [2], [3], [4], [5::int]]"]
    h1 h2 h3 h4 e l show ?thesis by simp
qed

text \<open>
  C7 fails as stated for every input pair: on a target frame of two columns \<open>reshape_2\<close>
  raises ValueError, here with \<open>batch_size = 1\<close>.
\<close>

theorem split_data_total_counterexample:
  "(1::int) \<le> 1 \<and>
   split_data 10 1 [[1], [2::int]] [[10, 11], [20, 21::int]] (float_literal (4 / 5)) = Inl ValueError"
  by (simp add: split_data_def split_index_10_1 slice_to_def slice_from_def drop_tail_def
      reshape_2_def Let_def)

text \<open>
  The other raises of \<open>split_data\<close>: \<open>int\<close> of a NaN or infinite product, and the
  remainder by a zero batch size.
\<close>

lemma split_data_NaN:
  assumes "\<bar>input_len\<bar> < 2 ^ 53"
  shows "split_data input_len batch_size x y NaN = Inl ValueError"
proof -
  have "int_mul_float input_len NaN = Inr NaN"
    by (simp add: int_mul_float_def float_of_int_def round64_of_int [OF assms])
  then have "split_index input_len batch_size NaN = Inl ValueError"
    by (simp add: split_index_def py_int_def)
  then show ?thesis by (rule split_data_error)
qed

lemma split_data_infinite_ratio:
  "split_data 10 batch_size x y PosInf = Inl OverflowError"
proof -
  have "int_mul_float 10 PosInf = Inr PosInf"
    using round64_of_int [of 10] by (simp add: int_mul_float_def float_of_int_def)
  then have "split_index 10 batch_size PosInf = Inl OverflowError"
    by (simp add: split_index_def py_int_def)
  then show ?thesis by (rule split_data_error)
qed

lemma split_data_zero_batch:
  assumes "\<bar>input_len\<bar> < 2 ^ 53" and "\<bar>of_int input_len * ratio\<bar> < 2 ^ 1023"
  shows "split_data input_len 0 x y (Finite ratio) = Inl ZeroDivisionError"
proof -
  obtain p where "int_mul_float input_len (Finite ratio) = Inr (Finite p)"
    using int_mul_float_no_overflow [OF assms] by blast
  then have "split_index input_len 0 (Finite ratio) = Inl ZeroDivisionError"
    by (simp add: split_index_def py_int_def)
  then show ?thesis by (rule split_data_error)
qed

text \<open>
  C1, as amended. For \<open>x\<close> and a one-column target frame \<open>y\<close> of equal length,
  \<open>batch_size \<ge> 1\<close> and a ratio whose split index is defined and lies between 0 and the
  length of \<open>x\<close>, the train inputs and targets have the same length, so have the test
  inputs and targets, and both lengths are exact multiples of \<open>batch_size\<close>.
\<close>

theorem split_data_batch_aligned:
  assumes "1 \<le> batch_size" and "length x = length y"
    and "list_all (\<lambda>row. length row = 1) y"
    and "split_index input_len batch_size ratio = Inr to_train"
    and "0 \<le> to_train" and "to_train \<le> int (length x)"
  shows "\<exists>x_train y_train x_test y_test.
     split_data input_len batch_size x y ratio = Inr ((x_train, y_train), (x_test, y_test)) \<and>
     length x_train = length y_train \<and> length x_test = length y_test \<and>
     int (length x_train) mod batch_size = 0 \<and> int (length x_test) mod batch_size = 0"
proof -
  let ?t = to_train
  let ?d = "int (length x) mod batch_size"
  have b: "0 < batch_size" using assms(1) by simp
  have tm: "?t mod batch_size = 0" using assms(4) by (rule split_index_mod)
  have tr: "int (length (slice_to ?t x)) = ?t" "int (length (slice_to ?t y)) = ?t"
    using assms(2,5,6) by (simp_all add: length_slice_to)
  have te: "int (length (drop_tail ?d (slice_from ?t x))) =
      (if 0 < ?d then max 0 (int (length x) - ?t - ?d) else int (length x) - ?t)"
    using assms(5,6) by (simp add: length_drop_tail length_slice_from)
  have tey: "int (length (drop_tail ?d (slice_from ?t y))) = int (length (drop_tail ?d (slice_from ?t x)))"
    using assms(2) by (simp add: length_drop_tail length_slice_from)
  have m1: "int (length (slice_to ?t x)) mod batch_size = 0"
    unfolding tr by (rule tm)
  have m2: "int (length (drop_tail ?d (slice_from ?t x))) mod batch_size = 0"
    unfolding te using tail_multiple [OF b assms(5,6) tm] .
  have eq1: "length (slice_to ?t x) = length (slice_to ?t y)"
    using tr by linarith
  have eq2: "length (drop_tail ?d (slice_from ?t x)) = length (drop_tail ?d (slice_from ?t y))"
    using tey by linarith
  show ?thesis
    unfolding split_data_Inr [OF assms(4,3)] using m1 m2 eq1 eq2 by simp
qed

theorem split_data_batch_aligned_witness:
  "(1::int) \<le> 2 \<and>
   length [[1], [2], [3], [4], [5], [6], [7::int]] = length [[10], [20], [30], [40], [50], [60], [70::int]] \<and>
   list_all (\<lambda>row. length row = 1) [[10], [20], [30], [40], [50], [60], [70::int]] \<and>
   split_index 6 2 (Finite (1 / 2)) = Inr 2 \<and> (0::int) \<le> 2 \<and>
   (2::int) \<le> int (length [[1], [2], [3], [4], [5], [6], [7::int]]) \<and>
   split_data 6 2 [[1], [2], [3], [4], [5], [6], [7::int]]
       [[10], [20], [30], [40], [50], [60], [70::int]] (Finite (1 / 2)) =
     Inr (([[[1]], [[2]]], [[10], [20]]), ([[[3]], [[4]], [[5]], [[6]]], [[30], [40], [50], [60]]))"
proof -
  have h1: "(1::int) \<le> 2" by simp
  have h2: "length [[1], [2], [3], [4], [5], [6], [7::int]] =
      length [[10], [20], [30], [40], [50], [60], [70::int]]"
    by simp
  have h3: "list_all (\<lambda>row. length row = 1) [[10], [20], [30], [40], [50], [60], [70::int]]"
    by simp
  have h5: "(0::int) \<le> 2" by simp
  have h6: "(2::int) \<le> int (length [[1], [2], [3], [4], [5], [6], [7::int]])" by simp
  have e: "split_data 6 2 [[1], [2], [3], [4], [5], [6], [7::int]]
       [[10], [20], [30], [40], [50], [60], [70::int]] (Finite (1 / 2)) =
     Inr (([[[1]], [[2]]], [[10], [20]]), ([[[3]], [[4]], [[5]], [[6]]], [[30], [40], [50], [60]]))"
    by (simp add: split_data_Inr [OF split_index_6_2 h3] slice_to_def slice_from_def
        drop_tail_def reshape_3_def)
  from split_data_batch_aligned [OF h1 h2 h3 split_index_6_2 h5 h6] h1 h2 h3 split_index_6_2 h5 h6 e
  show ?thesis by simp
qed

text \<open>
  C1 fails as stated for every input pair: with \<open>input_len = 10\<close>, \<open>batch_size = 2\<close> and
  the default ratio, three rows are all taken as train rows, and 3 is odd.
\<close>

theorem split_data_batch_aligned_counterexample:
  "split_data 10 2 [[1], [2], [3::int]] [[10], [20], [30::int]] (float_literal (4 / 5)) =
     Inr (([[[1]], [[2]], [[3]]], [[10], [20], [30]]), ([], [])) \<and>
   int (length [[[1]], [[2]], [[3::int]]]) mod 2 \<noteq> 0"
proof -
  have c: "list_all (\<lambda>row. length row = 1) [[10], [20], [30::int]]" by simp
  show ?thesis
    by (simp add: split_data_Inr [OF split_index_10_2 c] slice_to_def slice_from_def
        drop_tail_def reshape_3_def)
qed

text \<open>
  The same happens with \<open>len(x) = input_len\<close> once the ratio leaves the unit interval:
  above 1 the index exceeds the length and every row is a train row; below 0 the index is
  negative (\<open>int\<close> truncates \<open>-2.5\<close> to \<open>-2\<close>) and the slices count from the end.
\<close>

lemma split_data_ratio_above_one:
  "split_data 5 2 [[1], [2], [3], [4], [5::int]] [[10], [20], [30], [40], [50::int]] (Finite (3 / 2)) =
     Inr (([[[1]], [[2]], [[3]], [[4]], [[5]]], [[10], [20], [30], [40], [50]]), ([], []))"
proof -
  have c: "list_all (\<lambda>row. length row = 1) [[10], [20], [30], [40], [50::int]]" by simp
  show ?thesis
    by (simp add: split_data_Inr [OF split_index_above_one c] slice_to_def slice_from_def
        drop_tail_def reshape_3_def)
qed

lemma split_data_negative_ratio:
  "split_data 5 2 [[1], [2], [3], [4], [5::int]] [[10], [20], [30], [40], [50::int]] (Finite (- (1 / 2))) =
     Inr (([[[1]], [[2]], [[3]]], [[10], [20], [30]]), ([[[4]]], [[40]]))"
proof -
  have c: "list_all (\<lambda>row. length row = 1) [[10], [20], [30], [40], [50::int]]" by simp
  show ?thesis
    by (simp add: split_data_Inr [OF split_index_negative c] slice_to_def slice_from_def
        drop_tail_def reshape_3_def)
qed



section \<open>Properties of the moving average\<close>

lemma those_map_Some: "those (map Some vs) = Some vs"
  by (induction vs) simp_all

lemma window_at_DataFrame: "window_at w i (DataFrame vs) = map Some (window_at w i vs)"
  by (simp add: window_at_def DataFrame_def take_map drop_map)

lemma length_window_at:
  "i < length xs \<Longrightarrow> length (window_at w i xs) = min w (Suc i)"
  by (auto simp add: window_at_def)

lemma sum_list_window_at:
  fixes vs :: "rat list"
  assumes "i < length vs" "w \<le> Suc i"
  shows "sum_list (window_at w i vs) = (\<Sum>k = Suc i - w..<Suc i. vs ! k)"
proof -
  let ?a = "Suc i - w"
  let ?xs = "drop ?a (take (Suc i) vs)"
  have len: "length ?xs = Suc i - ?a" using assms(1) by simp
  have "sum_list ?xs = (\<Sum>j = 0..<length ?xs. ?xs ! j)"
    by (rule sum_list_sum_nth)
  also have "\<dots> = (\<Sum>j = 0..<Suc i - ?a. ?xs ! j)"
    by (simp only: len)
  also have "\<dots> = (\<Sum>j = 0..<Suc i - ?a. vs ! (j + ?a))"
    by (rule sum.cong) (use assms(1) in \<open>auto simp: add.commute\<close>)
  also have "\<dots> = (\<Sum>k = 0 + ?a..<(Suc i - ?a) + ?a. vs ! k)"
    by (simp only: sum.shift_bounds_nat_ivl)
  also have "\<dots> = (\<Sum>k = ?a..<Suc i. vs ! k)"
    by simp
  finally show ?thesis by (simp add: window_at_def)
qed

lemma count_from: "length (filter (\<lambda>i. k \<le> i) [0..<n]) = n - k"
  by (induction n) auto

lemma rolling_mean_example:
  "rolling_mean 2 (DataFrame [1, 2, 3, 4, 5]) =
     Inr [None, Some (3 / 2), Some (5 / 2), Some (7 / 2), Some (9 / 2)]"
  by (simp add: rolling_mean_def DataFrame_def window_mean_def window_at_def upt_rec)

lemma rolling_mean_DataFrame:
  assumes "1 \<le> tsteps"
  shows "rolling_mean tsteps (DataFrame vs) =
     Inr (map (\<lambda>i. if nat tsteps - 1 \<le> i
                    then Some ((\<Sum>k = Suc i - nat tsteps..<Suc i. vs ! k) / of_int tsteps)
                    else None) [0..<length vs])"
proof -
  let ?w = "nat tsteps"
  let ?f = "\<lambda>i. if ?w - 1 \<le> i then Some ((\<Sum>k = Suc i - ?w..<Suc i. vs ! k) / of_int tsteps) else None"
  have w: "0 < ?w" "int ?w = tsteps" using assms by simp_all
  have cell: "window_mean ?w (window_at ?w i (DataFrame vs)) = ?f i" if "i < length vs" for i
  proof (cases "?w - 1 \<le> i")
    case True
    then have le: "?w \<le> Suc i" by simp
    have "length (window_at ?w i vs) = ?w" using length_window_at [OF that, of ?w] le by simp
    then show ?thesis
      using True w(1,2) sum_list_window_at [OF that le]
      by (simp add: window_mean_def window_at_DataFrame those_map_Some)
  next
    case False
    then have "length (window_at ?w i vs) \<noteq> ?w" using length_window_at [OF that, of ?w] by simp
    then show ?thesis using False
      by (simp add: window_mean_def window_at_DataFrame those_map_Some)
  qed
  have ld: "length (DataFrame vs) = length vs" by (simp add: DataFrame_def)
  have "map (\<lambda>i. window_mean ?w (window_at ?w i (DataFrame vs))) [0..<length (DataFrame vs)] =
      map ?f [0..<length vs]"
    unfolding ld by (rule map_cong [OF refl]) (simp add: cell)
  then show ?thesis
    using assms(1) by (simp add: rolling_mean_def)
qed

text \<open>
  C4. For a sequence of \<open>n\<close> samples and \<open>1 \<le> tsteps \<le> n\<close>, the moving average has
  \<open>n\<close> positions of which exactly \<open>n - tsteps + 1\<close> are defined; the first \<open>tsteps - 1\<close>
  positions are undefined, and every later position \<open>i\<close> holds the mean of the \<open>tsteps\<close>
  samples at the indices \<open>i - tsteps + 1 .. i\<close>.
\<close>

theorem rolling_mean_defined:
  assumes "1 \<le> tsteps" and "tsteps \<le> int (length vs)"
  shows "\<exists>ys. rolling_mean tsteps (DataFrame vs) = Inr ys \<and> length ys = length vs \<and>
     int (length (filter (\<lambda>c. c \<noteq> None) ys)) = int (length vs) - tsteps + 1 \<and>
     (\<forall>i < length vs. ys ! i =
        (if int i < tsteps - 1 then None
         else Some ((\<Sum>k = Suc i - nat tsteps..<Suc i. vs ! k) / of_int tsteps)))"
proof -
  let ?w = "nat tsteps"
  let ?f = "\<lambda>i. if ?w - 1 \<le> i then Some ((\<Sum>k = Suc i - ?w..<Suc i. vs ! k) / of_int tsteps) else None"
  have w: "0 < ?w" "int ?w = tsteps" "?w \<le> length vs" using assms by simp_all
  have r: "rolling_mean tsteps (DataFrame vs) = Inr (map ?f [0..<length vs])"
    using assms(1) by (rule rolling_mean_DataFrame)
  have "filter (\<lambda>c. c \<noteq> None) (map ?f [0..<length vs]) = map ?f (filter (\<lambda>i. ?w - 1 \<le> i) [0..<length vs])"
    by (simp add: filter_map comp_def)
  then have cnt: "length (filter (\<lambda>c. c \<noteq> None) (map ?f [0..<length vs])) = length vs - (?w - 1)"
    by (simp add: count_from)
  have cnt': "int (length (filter (\<lambda>c. c \<noteq> None) (map ?f [0..<length vs]))) = int (length vs) - tsteps + 1"
    unfolding cnt using w by linarith
  have nth: "map ?f [0..<length vs] ! i =
        (if int i < tsteps - 1 then None
         else Some ((\<Sum>k = Suc i - nat tsteps..<Suc i. vs ! k) / of_int tsteps))" if "i < length vs" for i
    using that w by (auto simp: not_le)
  show ?thesis unfolding r using cnt' nth by simp
qed

theorem rolling_mean_defined_witness:
  "(1::int) \<le> 2 \<and> (2::int) \<le> int (length [1, 2, 3, 4, 5::rat]) \<and>
   rolling_mean 2 (DataFrame [1, 2, 3, 4, 5]) =
     Inr [None, Some (3 / 2), Some (5 / 2), Some (7 / 2), Some (9 / 2)] \<and>
   int (length (filter (\<lambda>c. c \<noteq> None)
      [None, Some (3 / 2), Some (5 / 2), Some (7 / 2), Some (9 / 2 :: rat)])) =
     int (length [1, 2, 3, 4, 5::rat]) - 2 + 1"
proof -
  have h1: "(1::int) \<le> 2" and h2: "(2::int) \<le> int (length [1, 2, 3, 4, 5::rat])" by simp_all
  from rolling_mean_defined [OF h1 h2] h1 h2 rolling_mean_example show ?thesis by auto
qed

section \<open>Properties of the rolling window view\<close>

lemma length_shift: "length (shift i col) = length col"
  by (simp add: shift_def)

lemma nth_shift:
  "r < length col \<Longrightarrow> shift i col ! r = (if r < i then None else col ! (r - i))"
  by (auto simp add: shift_def nth_append)

lemma length_set_column:
  "length col = length df \<Longrightarrow> length (set_column c col df) = length df"
  by (simp add: set_column_def)

lemma nth_set_column:
  "length col = length df \<Longrightarrow> r < length df \<Longrightarrow>
   set_column c col df ! r = (df ! r)[c := col ! r]"
  by (simp add: set_column_def)

lemma shift_step_length:
  "length (set_column i (shift i (get_column i df)) df) = length df"
  by (simp add: length_set_column length_shift get_column_def)

lemma shift_step_nth:
  assumes "r < length df"
  shows "set_column i (shift i (get_column i df)) df ! r =
      (df ! r)[i := (if r < i then None else df ! (r - i) ! i)]"
proof -
  have l: "length (shift i (get_column i df)) = length df"
    by (simp add: length_shift get_column_def)
  have "shift i (get_column i df) ! r = (if r < i then None else df ! (r - i) ! i)"
    using assms by (simp add: nth_shift get_column_def)
  then show ?thesis using nth_set_column [OF l assms] by simp
qed

lemma length_shift_columns: "length (shift_columns cs df) = length df"
  by (induction cs arbitrary: df) (simp_all add: shift_step_length)

lemma shift_columns_row_length:
  "r < length df \<Longrightarrow> length (shift_columns cs df ! r) = length (df ! r)"
proof (induction cs arbitrary: df)
  case Nil
  then show ?case by simp
next
  case (Cons i cs)
  then show ?case by (simp add: shift_step_length shift_step_nth)
qed

lemma shift_columns_nth:
  assumes "distinct cs" and "r < length df" and "c < length (df ! r)"
  shows "shift_columns cs df ! r ! c =
      (if c \<in> set cs then (if r < c then None else df ! (r - c) ! c) else df ! r ! c)"
  using assms
proof (induction cs arbitrary: df)
  case Nil
  then show ?case by simp
next
  case (Cons i cs)
  let ?df = "set_column i (shift i (get_column i df)) df"
  have d: "distinct cs" "i \<notin> set cs" using Cons.prems(1) by simp_all
  have r: "r < length ?df" using Cons.prems(2) by (simp add: shift_step_length)
  have c: "c < length (?df ! r)" using Cons.prems(2,3) by (simp add: shift_step_nth)
  have ih: "shift_columns cs ?df ! r ! c =
      (if c \<in> set cs then (if r < c then None else ?df ! (r - c) ! c) else ?df ! r ! c)"
    by (rule Cons.IH [OF d(1) r c])
  show ?case
  proof (cases "c \<in> set cs")
    case True
    then have ne: "c \<noteq> i" using d(2) by auto
    have "?df ! (r - c) ! c = df ! (r - c) ! c"
      using Cons.prems(2) ne by (simp add: shift_step_nth)
    then show ?thesis using ih True by simp
  next
    case False
    then show ?thesis using ih Cons.prems(2,3) by (auto simp add: shift_step_nth)
  qed
qed

lemma rolling_window_view_eq:
  "rolling_window_view lahead xs =
     map (\<lambda>r. map (\<lambda>c. if r < c then None else xs ! (r - c)) [0..<nat lahead]) [0..<length xs]"
proof (rule nth_equalityI)
  show "length (rolling_window_view lahead xs) =
      length (map (\<lambda>r. map (\<lambda>c. if r < c then None else xs ! (r - c)) [0..<nat lahead]) [0..<length xs])"
    by (simp add: rolling_window_view_def length_shift_columns np_repeat_def)
next
  fix r assume "r < length (rolling_window_view lahead xs)"
  then have r: "r < length xs"
    by (simp add: rolling_window_view_def length_shift_columns np_repeat_def)
  let ?df = "np_repeat (nat lahead) xs"
  have rl: "r < length ?df" using r by (simp add: np_repeat_def)
  have w: "length (?df ! r) = nat lahead" using r by (simp add: np_repeat_def)
  have "rolling_window_view lahead xs ! r =
      map (\<lambda>c. if r < c then None else xs ! (r - c)) [0..<nat lahead]"
  proof (rule nth_equalityI)
    show "length (rolling_window_view lahead xs ! r) =
        length (map (\<lambda>c. if r < c then None else xs ! (r - c)) [0..<nat lahead])"
      using shift_columns_row_length [OF rl] w by (simp add: rolling_window_view_def)
  next
    fix c assume "c < length (rolling_window_view lahead xs ! r)"
    then have c: "c < nat lahead"
      using shift_columns_row_length [OF rl] w by (simp add: rolling_window_view_def)
    have "shift_columns [0..<nat lahead] ?df ! r ! c = (if r < c then None else ?df ! (r - c) ! c)"
      using shift_columns_nth [of "[0..<nat lahead]" r ?df c] rl w c by simp
    moreover have "\<not> r < c \<Longrightarrow> ?df ! (r - c) ! c = xs ! (r - c)"
      using r c by (simp add: np_repeat_def)
    ultimately show "rolling_window_view lahead xs ! r ! c =
        map (\<lambda>c. if r < c then None else xs ! (r - c)) [0..<nat lahead] ! c"
      using c by (simp add: rolling_window_view_def)
  qed
  then show "rolling_window_view lahead xs ! r =
      map (\<lambda>r. map (\<lambda>c. if r < c then None else xs ! (r - c)) [0..<nat lahead]) [0..<length xs] ! r"
    using r by simp
qed

section \<open>Properties of the preprocessing\<close>

lemma to_drop_nonneg: "1 \<le> tsteps \<Longrightarrow> 0 \<le> to_drop tsteps lahead"
  by (simp add: to_drop_def)

lemma length_DataFrame: "length (DataFrame vs) = length vs"
  by (simp add: DataFrame_def)

lemma rows_of_eq: "rows_of xs = map (\<lambda>r. [xs ! r]) [0..<length xs]"
  by (rule nth_equalityI) (simp_all add: rows_of_def)

lemma preprocess_DataFrame:
  assumes "1 \<le> tsteps"
  shows "preprocess tsteps lahead (DataFrame vs) =
     Inr (drop (nat (to_drop tsteps lahead))
            (if 1 < lahead then rolling_window_view lahead (DataFrame vs) else rows_of (DataFrame vs)),
          drop (nat (to_drop tsteps lahead))
            (map (\<lambda>i. if nat tsteps - 1 \<le> i
                    then Some ((\<Sum>k = Suc i - nat tsteps..<Suc i. vs ! k) / of_int tsteps)
                    else None) [0..<length vs]))"
  using to_drop_nonneg [OF assms, of lahead]
  by (simp add: preprocess_def rolling_mean_DataFrame [OF assms] slice_from_def Let_def)

lemma windowed_defined:
  assumes "1 \<le> tsteps"
  shows "list_all (list_all (\<lambda>c. c \<noteq> None))
     (drop (nat (to_drop tsteps lahead))
        (if 1 < lahead then rolling_window_view lahead (DataFrame vs) else rows_of (DataFrame vs)))"
proof (cases "1 < lahead")
  case True
  have k: "nat lahead - 1 \<le> nat (to_drop tsteps lahead)" using True by (simp add: to_drop_def)
  show ?thesis
    using True k
    by (auto simp add: rolling_window_view_eq drop_map list_all_iff length_DataFrame DataFrame_def)
next
  case False
  then show ?thesis
    by (auto simp add: rows_of_eq drop_map list_all_iff length_DataFrame DataFrame_def)
qed

lemma average_defined:
  assumes "1 \<le> tsteps"
  shows "list_all (\<lambda>c. c \<noteq> None)
     (drop (nat (to_drop tsteps lahead))
        (map (\<lambda>i. if nat tsteps - 1 \<le> i
                    then Some ((\<Sum>k = Suc i - nat tsteps..<Suc i. vs ! k) / of_int tsteps)
                    else None) [0..<length vs]))"
proof -
  have k: "nat tsteps - 1 \<le> nat (to_drop tsteps lahead)" using assms by (simp add: to_drop_def)
  show ?thesis using k by (auto simp add: drop_map list_all_iff)
qed

lemma preprocess_example:
  "preprocess 2 2 (DataFrame [1, 2, 3]) =
     Inr ([[Some 2, Some 1], [Some 3, Some 2]], [Some (3 / 2), Some (5 / 2)])"
  by (simp add: preprocess_def rolling_mean_def DataFrame_def window_mean_def window_at_def upt_rec
      rolling_window_view_def np_repeat_def shift_def get_column_def set_column_def to_drop_def
      slice_from_def numeral_2_eq_2)

lemma rolling_mean_3: "rolling_mean 2 (DataFrame [1, 2, 3]) = Inr [None, Some (3 / 2), Some (5 / 2)]"
  by (simp add: rolling_mean_def DataFrame_def window_mean_def window_at_def upt_rec)

lemma one_column_rows_of: "list_all (\<lambda>row. length row = 1) (rows_of ys)"
  by (simp add: rows_of_def list_all_iff)

lemma list_all_rows_of: "list_all (list_all P) (rows_of ys) = list_all P ys"
  by (simp add: rows_of_def list_all_iff)

text \<open>
  C3, as amended. The script drops exactly the first \<open>max(tsteps-1, lahead-1)\<close> rows of
  both the input frame and the moving average, after the moving average and the rolling
  window view have been computed over the whole sequence (not before any windowing).
  What is kept holds no undefined entry, and neither does any of the four arrays that
  \<open>split_data\<close> returns from it; \<open>split_data\<close> returns them unless the computation of
  the split index raises.
\<close>

theorem preprocess_drops_undefined:
  assumes "1 \<le> tsteps"
  shows "\<exists>ma x y.
     rolling_mean tsteps (DataFrame vs) = Inr ma \<and>
     preprocess tsteps lahead (DataFrame vs) = Inr (x, y) \<and>
     x = drop (nat (max (tsteps - 1) (lahead - 1)))
           (if 1 < lahead then rolling_window_view lahead (DataFrame vs) else rows_of (DataFrame vs)) \<and>
     y = drop (nat (max (tsteps - 1) (lahead - 1))) ma \<and>
     list_all (list_all (\<lambda>c. c \<noteq> None)) x \<and> list_all (\<lambda>c. c \<noteq> None) y \<and>
     ((\<exists>e. split_index input_len batch_size ratio = Inl e \<and>
           split_data input_len batch_size x (rows_of y) ratio = Inl e) \<or>
      (\<exists>x_train y_train x_test y_test.
         split_data input_len batch_size x (rows_of y) ratio =
           Inr ((x_train, y_train), (x_test, y_test)) \<and>
         list_all (list_all (list_all (\<lambda>c. c \<noteq> None))) x_train \<and>
         list_all (list_all (\<lambda>c. c \<noteq> None)) y_train \<and>
         list_all (list_all (list_all (\<lambda>c. c \<noteq> None))) x_test \<and>
         list_all (list_all (\<lambda>c. c \<noteq> None)) y_test))"
proof -
  let ?k = "nat (to_drop tsteps lahead)"
  let ?x = "drop ?k (if 1 < lahead then rolling_window_view lahead (DataFrame vs) else rows_of (DataFrame vs))"
  let ?ma = "map (\<lambda>i. if nat tsteps - 1 \<le> i
                    then Some ((\<Sum>k = Suc i - nat tsteps..<Suc i. vs ! k) / of_int tsteps)
                    else None) [0..<length vs]"
  let ?y = "drop ?k ?ma"
  have dx: "list_all (list_all (\<lambda>c. c \<noteq> None)) ?x" using assms by (rule windowed_defined)
  have dy: "list_all (\<lambda>c. c \<noteq> None) ?y" using assms by (rule average_defined)
  have dy': "list_all (list_all (\<lambda>c. c \<noteq> None)) (rows_of ?y)"
    using dy by (simp only: list_all_rows_of)
  have sp: "(\<exists>e. split_index input_len batch_size ratio = Inl e \<and>
           split_data input_len batch_size ?x (rows_of ?y) ratio = Inl e) \<or>
      (\<exists>x_train y_train x_test y_test.
         split_data input_len batch_size ?x (rows_of ?y) ratio =
           Inr ((x_train, y_train), (x_test, y_test)) \<and>
         list_all (list_all (list_all (\<lambda>c. c \<noteq> None))) x_train \<and>
         list_all (list_all (\<lambda>c. c \<noteq> None)) y_train \<and>
         list_all (list_all (list_all (\<lambda>c. c \<noteq> None))) x_test \<and>
         list_all (list_all (\<lambda>c. c \<noteq> None)) y_test)"
  proof (cases "split_index input_len batch_size ratio")
    case (Inl e)
    then show ?thesis using split_data_error [OF Inl] by blast
  next
    case (Inr t)
    have "\<exists>x_train y_train x_test y_test.
         split_data input_len batch_size ?x (rows_of ?y) ratio =
           Inr ((x_train, y_train), (x_test, y_test)) \<and>
         list_all (list_all (list_all (\<lambda>c. c \<noteq> None))) x_train \<and>
         list_all (list_all (\<lambda>c. c \<noteq> None)) y_train \<and>
         list_all (list_all (list_all (\<lambda>c. c \<noteq> None))) x_test \<and>
         list_all (list_all (\<lambda>c. c \<noteq> None)) y_test"
      unfolding split_data_Inr [OF Inr one_column_rows_of]
      using dx dy'
      by (simp add: list_all_reshape_3 list_all_slice_to list_all_slice_from list_all_drop_tail)
    then show ?thesis by (rule disjI2)
  qed
  have k: "nat (max (tsteps - 1) (lahead - 1)) = ?k" by (simp add: to_drop_def)
  have r: "rolling_mean tsteps (DataFrame vs) = Inr ?ma"
    using assms by (rule rolling_mean_DataFrame)
  have p: "preprocess tsteps lahead (DataFrame vs) = Inr (?x, ?y)"
    using assms by (rule preprocess_DataFrame)
  show ?thesis
    unfolding k
    by (rule exI [of _ ?ma], rule exI [of _ ?x], rule exI [of _ ?y], intro conjI, rule r, rule p,
        rule refl, rule refl, rule dx, rule dy, rule sp)
qed

theorem preprocess_drops_undefined_witness:
  "(1::int) \<le> 2 \<and>
   preprocess 2 3 (DataFrame [1, 2, 3, 4]) =
     Inr ([[Some 3, Some 2, Some 1], [Some 4, Some 3, Some 2]], [Some (5 / 2), Some (7 / 2)]) \<and>
   split_data 2 1 [[Some 3, Some 2, Some 1], [Some 4, Some 3, Some (2::rat)]]
       (rows_of [Some (5 / 2), Some (7 / 2 :: rat)]) (Finite (1 / 2)) =
     Inr (([[[Some 3], [Some 2], [Some 1]]], [[Some (5 / 2)]]),
          ([[[Some 4], [Some 3], [Some 2]]], [[Some (7 / 2)]]))"
proof -
  have h: "(1::int) \<le> 2" by simp
  have p: "preprocess 2 3 (DataFrame [1, 2, 3, 4]) =
     Inr ([[Some 3, Some 2, Some 1], [Some 4, Some 3, Some 2]], [Some (5 / 2), Some (7 / 2)])"
    by (simp add: preprocess_def rolling_mean_def DataFrame_def window_mean_def window_at_def upt_rec
      rolling_window_view_def np_repeat_def shift_def get_column_def set_column_def to_drop_def
      slice_from_def numeral_3_eq_3)
  have s: "split_data 2 1 [[Some 3, Some 2, Some 1], [Some 4, Some 3, Some (2::rat)]]
       (rows_of [Some (5 / 2), Some (7 / 2 :: rat)]) (Finite (1 / 2)) =
     Inr (([[[Some 3], [Some 2], [Some 1]]], [[Some (5 / 2)]]),
          ([[[Some 4], [Some 3], [Some 2]]], [[Some (7 / 2)]]))"
    unfolding split_data_Inr [OF split_index_2_1 one_column_rows_of]
    by (simp add: slice_to_def slice_from_def drop_tail_def reshape_3_def rows_of_def)
  from preprocess_drops_undefined [OF h, of "[1, 2, 3, 4]" 3 2 1 "Finite (1 / 2)"] h p s
  show ?thesis by simp
qed

text \<open>
  C3 fails as stated: the drop comes after the windowing. For \<open>tsteps = lahead = 2\<close> and
  the sequence 1, 2, 3 the first retained row is \<open>[2, 1]\<close>, built from the dropped first
  entry; dropping that entry before windowing gives the row \<open>[2, NaN]\<close> instead.
\<close>

theorem preprocess_drops_undefined_counterexample:
  "preprocess 2 2 (DataFrame [1, 2, 3]) =
     Inr ([[Some 2, Some 1], [Some 3, Some 2]], [Some (3 / 2), Some (5 / 2)]) \<and>
   rolling_mean 2 (DataFrame [1, 2, 3]) = Inr [None, Some (3 / 2), Some (5 / 2)] \<and>
   spec_drop_then_window 2 2 (DataFrame [1, 2, 3]) [None, Some (3 / 2), Some (5 / 2)] =
     ([[Some 2, None], [Some 3, Some 2]], [Some (3 / 2), Some (5 / 2)]) \<and>
   [[Some 2, Some 1], [Some 3, Some 2]] \<noteq> [[Some 2, None], [Some 3, Some (2::rat)]]"
  using preprocess_example rolling_mean_3
  by (simp add: spec_drop_then_window_def DataFrame_def upt_rec
      rolling_window_view_def np_repeat_def shift_def get_column_def set_column_def to_drop_def
      slice_from_def numeral_2_eq_2)

text \<open>
  C5, as amended. For \<open>lahead = 2\<close> and \<open>tsteps = 2\<close> the retained rows are those of the
  indices \<open>i = 1 .. n - 1\<close>, and row \<open>i\<close> is the ordered pair \<open>[x[i], x[i-1]]\<close>, the
  current sample first. The first retained row holds the true previous sample \<open>x[0]\<close>.
\<close>

theorem window_rows_lahead_2:
  "\<exists>y. preprocess 2 2 (DataFrame vs) =
     Inr (map (\<lambda>i. [Some (vs ! i), Some (vs ! (i - 1))]) [1..<length vs], y)"
proof -
  have k: "nat (to_drop 2 2) = 1" by (simp add: to_drop_def)
  have u: "[0..<nat 2] = [0, 1]" by (simp add: upt_rec)
  have "drop 1 (rolling_window_view 2 (DataFrame vs)) =
      map (\<lambda>i. [Some (vs ! i), Some (vs ! (i - 1))]) [1..<length vs]"
    unfolding rolling_window_view_eq u length_DataFrame drop_map drop_upt
    by (rule map_cong) (auto simp add: DataFrame_def)
  then show ?thesis
    by (simp add: preprocess_DataFrame k)
qed

text \<open>
  C5 fails as stated: for the sequence 1, 2, 3 the row of index 1 is \<open>[2, 1]\<close>, not
  \<open>[x[0], x[1]] = [1, 2]\<close>.
\<close>

theorem window_rows_lahead_2_counterexample:
  "preprocess 2 2 (DataFrame [1, 2, 3]) =
     Inr ([[Some 2, Some 1], [Some 3, Some 2]], [Some (3 / 2), Some (5 / 2)]) \<and>
   [Some 2, Some 1] \<noteq> [Some ([1, 2, 3] ! (1 - 1)), Some ([1, 2, 3::rat] ! 1)]"
  using preprocess_example by simp

section \<open>Properties of the generator\<close>

lemma random_sample_Suc:
  "random_sample rng (Suc n) st =
     (fst (rng st) # fst (random_sample rng n (snd (rng st))),
      snd (random_sample rng n (snd (rng st))))"
  by (simp split: prod.splits)

lemma length_random_sample: "length (fst (random_sample rng n st)) = n"
  by (induction n arbitrary: st) (simp_all add: random_sample_Suc del: random_sample.simps(2))

lemma random_sample_unit:
  assumes "\<forall>s. 0 \<le> fst (rng s) \<and> fst (rng s) < 1"
  shows "list_all (\<lambda>u. 0 \<le> u \<and> u < 1) (fst (random_sample rng n st))"
proof (induction n arbitrary: st)
  case 0
  then show ?case by simp
next
  case (Suc n)
  show ?case
    using Suc [of "snd (rng st)"] assms
    by (simp add: random_sample_Suc del: random_sample.simps(2))
qed

lemma gen_uniform_amp_Inr:
  assumes "0 \<le> xn"
  shows "gen_uniform_amp rng amp xn st =
     Inr (DataFrame (map (\<lambda>u. -1 * amp + (1 * amp - -1 * amp) * u)
                       (fst (random_sample rng (nat xn) st))),
          snd (random_sample rng (nat xn) st))"
  using assms by (simp add: gen_uniform_amp_def uniform_def split: prod.splits)

lemma lcg_unit: "0 \<le> fst (lcg s) \<and> fst (lcg s) < 1"
  by (simp add: lcg_def Let_def)

lemma random_sample_lcg_3:
  "random_sample lcg 3 1986 = ([17950 / 65537, 35584 / 65537, 47394 / 65537], 47394)"
  by (simp add: numeral_3_eq_3 lcg_def Let_def)

text \<open>
  C8. For every \<open>amp > 0\<close> and every length \<open>xn \<ge> 0\<close>, \<open>gen_uniform_amp\<close> returns a
  frame of exactly \<open>xn\<close> samples, each defined and within \<open>[-amp, amp]\<close>, provided the
  generator's step draws from the unit interval \<open>[0, 1)\<close>.
\<close>

theorem gen_uniform_amp_range:
  assumes "0 < amp" and "0 \<le> xn" and "\<forall>s. 0 \<le> fst (rng s) \<and> fst (rng s) < 1"
  shows "\<exists>data_input st'. gen_uniform_amp rng amp xn st = Inr (data_input, st') \<and>
     int (length data_input) = xn \<and>
     list_all (\<lambda>c. \<exists>v. c = Some v \<and> - amp \<le> v \<and> v \<le> amp) data_input"
proof -
  let ?us = "fst (random_sample rng (nat xn) st)"
  let ?vs = "map (\<lambda>u. -1 * amp + (1 * amp - -1 * amp) * u) ?us"
  have len: "int (length (DataFrame ?vs)) = xn"
    using assms(2) by (simp add: length_random_sample DataFrame_def)
  have rng: "- amp \<le> -1 * amp + (1 * amp - -1 * amp) * u \<and> -1 * amp + (1 * amp - -1 * amp) * u \<le> amp"
    if "0 \<le> u \<and> u < 1" for u
  proof -
    have "0 \<le> 2 * amp * u" using that assms(1) by simp
    moreover have "2 * amp * u \<le> 2 * amp * 1"
      using that assms(1) by (intro mult_left_mono) simp_all
    ultimately show ?thesis by (simp add: algebra_simps)
  qed
  have "list_all (\<lambda>c. \<exists>v. c = Some v \<and> - amp \<le> v \<and> v \<le> amp) (DataFrame ?vs)"
    using random_sample_unit [OF assms(3), of "nat xn" st] rng
    by (simp add: list_all_iff DataFrame_def)
  then show ?thesis
    using gen_uniform_amp_Inr [OF assms(2), of rng amp st] len by blast
qed

theorem gen_uniform_amp_range_witness:
  "(0::rat) < 1 / 10 \<and> (0::int) \<le> 3 \<and> (\<forall>s. 0 \<le> fst (lcg s) \<and> fst (lcg s) < 1) \<and>
   gen_uniform_amp lcg (1 / 10) 3 1986 =
     Inr ([Some (- (29637 / 655370)), Some (5631 / 655370), Some (29251 / 655370)], 47394) \<and>
   int (length [Some (- (29637 / 655370)), Some (5631 / 655370), Some (29251 / 655370 :: rat)]) = 3"
proof -
  have h1: "(0::rat) < 1 / 10" and h2: "(0::int) \<le> 3" by simp_all
  have h3: "\<forall>s. 0 \<le> fst (lcg s) \<and> fst (lcg s) < 1" using lcg_unit by blast
  have e: "gen_uniform_amp lcg (1 / 10) 3 1986 =
     Inr ([Some (- (29637 / 655370)), Some (5631 / 655370), Some (29251 / 655370)], 47394)"
    by (simp add: gen_uniform_amp_def uniform_def random_sample_lcg_3 DataFrame_def)
  from gen_uniform_amp_range [OF h1 h2 h3, of 1986] h1 h2 h3 e
  show ?thesis by simp
qed

section \<open>Properties of the whole pipeline\<close>

lemma length_rolling_window_view: "length (rolling_window_view lahead xs) = length xs"
  by (simp add: rolling_window_view_def length_shift_columns np_repeat_def)

lemma count_defined_average:
  "length (filter (\<lambda>c. c \<noteq> None)
      (map (\<lambda>i. if w \<le> i then Some (f i) else None) [0..<n])) = n - w"
proof -
  have "filter (\<lambda>c. c \<noteq> None) (map (\<lambda>i. if w \<le> i then Some (f i) else None) [0..<n]) =
      map (\<lambda>i. if w \<le> i then Some (f i) else None) (filter (\<lambda>i. w \<le> i) [0..<n])"
    by (simp add: filter_map comp_def)
  then show ?thesis by (simp add: count_from)
qed

lemma generate_data_Inr:
  assumes "0 \<le> input_len" and "1 \<le> tsteps"
  shows "\<exists>vs st' x y.
     gen_uniform_amp rng (1 / 10) (input_len + to_drop tsteps lahead) st = Inr (DataFrame vs, st') \<and>
     int (length vs) = input_len + to_drop tsteps lahead \<and>
     preprocess tsteps lahead (DataFrame vs) = Inr (x, y) \<and>
     generate_data rng input_len tsteps lahead st = Inr (x, y) \<and>
     int (length x) = input_len \<and> int (length y) = input_len"
proof -
  let ?k = "to_drop tsteps lahead"
  let ?vs = "map (\<lambda>u. -1 * (1 / 10) + (1 * (1 / 10) - -1 * (1 / 10)) * u)
               (fst (random_sample rng (nat (input_len + ?k)) st))"
  let ?st = "snd (random_sample rng (nat (input_len + ?k)) st)"
  let ?x = "drop (nat ?k) (if 1 < lahead then rolling_window_view lahead (DataFrame ?vs)
                    else rows_of (DataFrame ?vs))"
  let ?y = "drop (nat ?k) (map (\<lambda>i. if nat tsteps - 1 \<le> i
                    then Some ((\<Sum>k = Suc i - nat tsteps..<Suc i. ?vs ! k) / of_int tsteps)
                    else None) [0..<length ?vs])"
  have k: "0 \<le> ?k" using assms(2) by (rule to_drop_nonneg)
  then have n: "0 \<le> input_len + ?k" using assms(1) by simp
  have lv: "length ?vs = nat (input_len + ?k)" by (simp add: length_random_sample)
  have lv': "int (length ?vs) = input_len + ?k" unfolding lv using n by simp
  have ge: "gen_uniform_amp rng (1 / 10) (input_len + ?k) st = Inr (DataFrame ?vs, ?st)"
    using n by (rule gen_uniform_amp_Inr)
  have p: "preprocess tsteps lahead (DataFrame ?vs) = Inr (?x, ?y)"
    using assms(2) by (rule preprocess_DataFrame)
  have g: "generate_data rng input_len tsteps lahead st = Inr (?x, ?y)"
    by (simp only: generate_data_def ge p sum.case prod.case)
  have lw: "length (if 1 < lahead then rolling_window_view lahead (DataFrame ?vs)
                    else rows_of (DataFrame ?vs)) = nat (input_len + ?k)"
    using lv by (simp add: length_rolling_window_view rows_of_def length_DataFrame)
  have d: "int (nat (input_len + ?k) - nat ?k) = input_len" using k assms(1) by simp
  have lx: "int (length ?x) = input_len" using lw d by simp
  have ly: "int (length ?y) = input_len" using lv d by simp
  have c: "gen_uniform_amp rng (1 / 10) (input_len + ?k) st = Inr (DataFrame ?vs, ?st) \<and>
      int (length ?vs) = input_len + ?k \<and>
      preprocess tsteps lahead (DataFrame ?vs) = Inr (?x, ?y) \<and>
      generate_data rng input_len tsteps lahead st = Inr (?x, ?y) \<and>
      int (length ?x) = input_len \<and> int (length ?y) = input_len"
    using ge lv' p g lx ly by (intro conjI)
  show ?thesis
    by (rule exI [of _ ?vs], rule exI [of _ ?st], rule exI [of _ ?x], rule exI [of _ ?y]) (rule c)
qed

lemma scenario_generate:
  "\<exists>vs st' ma. gen_uniform_amp rng (1 / 10) (10 + to_drop 2 1) st = Inr (DataFrame vs, st') \<and>
     length vs = 11 \<and> rolling_mean 2 (DataFrame vs) = Inr ma \<and>
     length (filter (\<lambda>c. c \<noteq> None) ma) = 10"
proof -
  let ?vs = "map (\<lambda>u. -1 * (1 / 10) + (1 * (1 / 10) - -1 * (1 / 10)) * u)
               (fst (random_sample rng (nat 11) st))"
  let ?st = "snd (random_sample rng (nat 11) st)"
  let ?ma = "map (\<lambda>i. if nat 2 - 1 \<le> i
                    then Some ((\<Sum>k = Suc i - nat 2..<Suc i. ?vs ! k) / of_int 2)
                    else None) [0..<length ?vs]"
  have k: "10 + to_drop 2 1 = 11" by (simp add: to_drop_def)
  have ge: "gen_uniform_amp rng (1 / 10) 11 st = Inr (DataFrame ?vs, ?st)"
    by (rule gen_uniform_amp_Inr) simp
  have lv: "length ?vs = 11" by (simp add: length_random_sample)
  have r: "rolling_mean 2 (DataFrame ?vs) = Inr ?ma"
    by (rule rolling_mean_DataFrame) simp
  have "length (filter (\<lambda>c. c \<noteq> None) ?ma) = length ?vs - (nat 2 - 1)"
    by (rule count_defined_average)
  then have c: "length (filter (\<lambda>c. c \<noteq> None) ?ma) = 10" unfolding lv by simp
  have "gen_uniform_amp rng (1 / 10) (10 + to_drop 2 1) st = Inr (DataFrame ?vs, ?st) \<and>
     length ?vs = 11 \<and> rolling_mean 2 (DataFrame ?vs) = Inr ?ma \<and>
     length (filter (\<lambda>c. c \<noteq> None) ?ma) = 10"
    unfolding k using ge lv r c by (intro conjI)
  then show ?thesis
    by (intro exI)
qed

lemma scenario_split:
  "\<exists>x y x_train y_train x_test y_test.
     generate_data rng 10 2 1 st = Inr (x, y) \<and> length x = 10 \<and> length y = 10 \<and>
     script_split rng 10 2 1 1 st = Inr ((x_train, y_train), (x_test, y_test)) \<and>
     length x_train = 8 \<and> length y_train = 8 \<and> length x_test = 2 \<and> length y_test = 2"
proof -
  obtain x y where g: "generate_data rng 10 2 1 st = Inr (x, y)"
    and lx: "int (length x) = 10" and ly: "int (length y) = 10"
    using generate_data_Inr [of 10 2 rng 1 st] by auto
  have l: "length x = 10" "length y = 10" using lx ly by simp_all
  have s: "script_split rng 10 2 1 1 st =
      Inr ((reshape_3 (slice_to 8 x), slice_to 8 (rows_of y)),
           (reshape_3 (drop_tail 0 (slice_from 8 x)), drop_tail 0 (slice_from 8 (rows_of y))))"
    using l by (simp add: script_split_def g split_data_Inr [OF split_index_10_1 one_column_rows_of])
  have "length (reshape_3 (slice_to 8 x)) = 8" "length (slice_to 8 (rows_of y)) = 8"
    "length (reshape_3 (drop_tail 0 (slice_from 8 x))) = 2"
    "length (drop_tail 0 (slice_from 8 (rows_of y))) = 2"
    using l by (simp_all add: slice_to_def slice_from_def drop_tail_def rows_of_def)
  then show ?thesis using g l s by blast
qed

text \<open>
  C10. For \<open>input_len \<ge> 0\<close> and \<open>tsteps \<ge> 1\<close> the generator is invoked with the length
  \<open>input_len + to_drop\<close>, and after the drop of the first \<open>to_drop\<close> rows the inputs and
  the moving average each have exactly \<open>input_len\<close> rows. So the split index that
  \<open>split_data\<close> computes from the global \<open>input_len\<close> is the one computed from the length
  of the array it splits.
\<close>

theorem generate_data_length:
  assumes "0 \<le> input_len" and "1 \<le> tsteps"
  shows "\<exists>vs st' x y.
     gen_uniform_amp rng (1 / 10) (input_len + max (tsteps - 1) (lahead - 1)) st =
       Inr (DataFrame vs, st') \<and>
     int (length vs) = input_len + max (tsteps - 1) (lahead - 1) \<and>
     generate_data rng input_len tsteps lahead st = Inr (x, y) \<and>
     int (length x) = input_len \<and> int (length y) = input_len \<and>
     split_index input_len batch_size ratio = split_index (int (length x)) batch_size ratio"
proof -
  obtain vs st' x y where
    "gen_uniform_amp rng (1 / 10) (input_len + to_drop tsteps lahead) st = Inr (DataFrame vs, st')"
    "int (length vs) = input_len + to_drop tsteps lahead"
    "generate_data rng input_len tsteps lahead st = Inr (x, y)"
    "int (length x) = input_len" "int (length y) = input_len"
    using generate_data_Inr [OF assms, of rng lahead st] by blast
  then show ?thesis unfolding to_drop_def by auto
qed

theorem generate_data_length_witness:
  "(0::int) \<le> 3 \<and> (1::int) \<le> 2 \<and>
   gen_uniform_amp lcg (1 / 10) (3 + max (2 - 1) (2 - 1)) 1986 =
     Inr (DataFrame [- (29637 / 655370), 5631 / 655370, 29251 / 655370, - (6857 / 131074)], 15626) \<and>
   generate_data lcg 3 2 2 1986 =
     Inr ([[Some (5631 / 655370), Some (- (29637 / 655370))],
           [Some (29251 / 655370), Some (5631 / 655370)],
           [Some (- (6857 / 131074)), Some (29251 / 655370)]],
          [Some (- (12003 / 655370)), Some (17441 / 655370), Some (- (2517 / 655370))]) \<and>
   split_index 3 1 (float_literal (4 / 5)) = split_index (int (length
      [[Some (5631 / 655370), Some (- (29637 / 655370))],
       [Some (29251 / 655370), Some (5631 / 655370)],
       [Some (- (6857 / 131074)), Some (29251 / 655370 :: rat)]])) 1 (float_literal (4 / 5))"
proof -
  have h1: "(0::int) \<le> 3" and h2: "(1::int) \<le> 2" by simp_all
  have four: "(4::nat) = Suc (Suc (Suc (Suc 0)))" by simp
  have r: "random_sample lcg 4 1986 =
      ([17950 / 65537, 35584 / 65537, 47394 / 65537, 15626 / 65537], 15626)"
    unfolding four by (simp add: lcg_def Let_def)
  have g: "gen_uniform_amp lcg (1 / 10) (3 + max (2 - 1) (2 - 1)) 1986 =
     Inr (DataFrame [- (29637 / 655370), 5631 / 655370, 29251 / 655370, - (6857 / 131074)], 15626)"
    by (simp add: gen_uniform_amp_def uniform_def r)
  have p: "preprocess 2 2 (DataFrame [- (29637 / 655370), 5631 / 655370, 29251 / 655370, - (6857 / 131074)]) =
     Inr ([[Some (5631 / 655370), Some (- (29637 / 655370))],
           [Some (29251 / 655370), Some (5631 / 655370)],
           [Some (- (6857 / 131074)), Some (29251 / 655370)]],
          [Some (- (12003 / 655370)), Some (17441 / 655370), Some (- (2517 / 655370))])"
    by (simp add: preprocess_def rolling_mean_def DataFrame_def window_mean_def window_at_def upt_rec
      rolling_window_view_def np_repeat_def shift_def get_column_def set_column_def to_drop_def
      slice_from_def numeral_2_eq_2)
  have e: "generate_data lcg 3 2 2 1986 =
     Inr ([[Some (5631 / 655370), Some (- (29637 / 655370))],
           [Some (29251 / 655370), Some (5631 / 655370)],
           [Some (- (6857 / 131074)), Some (29251 / 655370)]],
          [Some (- (12003 / 655370)), Some (17441 / 655370), Some (- (2517 / 655370))])"
    using g p by (simp add: generate_data_def to_drop_def)
  from generate_data_length [OF h1 h2, of lcg 2 1986 1 "float_literal (4 / 5)"] h1 h2 g e
  show ?thesis by auto
qed

text \<open>
  C6, as amended. With \<open>input_len = 10\<close>, \<open>tsteps = 2\<close>, \<open>lahead = 1\<close>, \<open>batch_size = 1\<close>
  the pipeline gives \<open>to_drop = 1\<close>, generates 11 samples, the moving average has 10
  defined values, 10 rows are kept, and the split at \<open>ratio = 0.8\<close> yields 8 train samples
  and 2 test samples.
\<close>

theorem script_scenario:
  "to_drop 2 1 = 1 \<and>
   (\<exists>vs st' ma. gen_uniform_amp rng (1 / 10) (10 + to_drop 2 1) st = Inr (DataFrame vs, st') \<and>
     length vs = 11 \<and> rolling_mean 2 (DataFrame vs) = Inr ma \<and>
     length (filter (\<lambda>c. c \<noteq> None) ma) = 10) \<and>
   (\<exists>x y x_train y_train x_test y_test.
     generate_data rng 10 2 1 st = Inr (x, y) \<and> length x = 10 \<and> length y = 10 \<and>
     script_split rng 10 2 1 1 st = Inr ((x_train, y_train), (x_test, y_test)) \<and>
     length x_train = 8 \<and> length y_train = 8 \<and> length x_test = 2 \<and> length y_test = 2)"
  using scenario_generate [of rng st] scenario_split [of rng st]
  by (simp add: to_drop_def)

text \<open>
  C6 fails as stated (9 defined values, 7 train samples): run from the seed 1986 on the
  small generator, the moving average has 10 defined values and the split has 8 train
  samples.
\<close>

theorem script_scenario_counterexample:
  "length (filter (\<lambda>c. c \<noteq> None)
     (projr (rolling_mean 2 (fst (projr (gen_uniform_amp lcg (1 / 10) (10 + to_drop 2 1) 1986)))))) = 10 \<and>
   length (fst (fst (projr (script_split lcg 10 2 1 1 1986)))) = 8 \<and>
   length (fst (snd (projr (script_split lcg 10 2 1 1 1986)))) = 2 \<and>
   \<not> (to_drop 2 1 = 1 \<and>
      length (filter (\<lambda>c. c \<noteq> None)
        (projr (rolling_mean 2 (fst (projr (gen_uniform_amp lcg (1 / 10) (10 + to_drop 2 1) 1986)))))) = 9 \<and>
      length (fst (fst (projr (script_split lcg 10 2 1 1 1986)))) = 7 \<and>
      length (fst (snd (projr (script_split lcg 10 2 1 1 1986)))) = 2)"
proof -
  obtain vs st' ma where
    "gen_uniform_amp lcg (1 / 10) (10 + to_drop 2 1) 1986 = Inr (DataFrame vs, st')"
    "rolling_mean 2 (DataFrame vs) = Inr ma" "length (filter (\<lambda>c. c \<noteq> None) ma) = 10"
    using scenario_generate [of lcg 1986] by blast
  then have a: "length (filter (\<lambda>c. c \<noteq> None)
     (projr (rolling_mean 2 (fst (projr (gen_uniform_amp lcg (1 / 10) (10 + to_drop 2 1) 1986)))))) = 10"
    by simp
  obtain x_train y_train x_test y_test where
    "script_split lcg 10 2 1 1 1986 = Inr ((x_train, y_train), (x_test, y_test))"
    "length x_train = 8" "length x_test = 2"
    using scenario_split [of lcg 1986] by blast
  then have b: "length (fst (fst (projr (script_split lcg 10 2 1 1 1986)))) = 8"
    "length (fst (snd (projr (script_split lcg 10 2 1 1 1986)))) = 2"
    by simp_all
  show ?thesis using a b by simp
qed

end
